theory Spec2Isabelle
  imports Complex_Main "HOL-Library.AList"
begin

section \<open>JavaScript values used by the importer\<close>

text \<open>
  The importer (\<^verbatim>\<open>src/index.js\<close>) is modelled function by function. A JavaScript string is a
  sequence of UTF-16 code units; the model covers the code units U+0000 to U+00FF, one
  \<^typ>\<open>char\<close> each, so \<^typ>\<open>string\<close> stands for the strings over that range. A value that
  is a string or \<^verbatim>\<open>undefined\<close>/\<^verbatim>\<open>null\<close> is a \<^typ>\<open>string option\<close>.
\<close>

subsection \<open>Strings\<close>

definition is_white_space :: "char \<Rightarrow> bool" where
  \<comment> \<open>WhiteSpace and LineTerminator of ECMAScript below U+0100: TAB, LF, VT, FF, CR, SP, NBSP.
      It is the set removed by \<^verbatim>\<open>trim()\<close> and matched by \<^verbatim>\<open>\s\<close>.\<close>
  "is_white_space c = (of_char c \<in> {9, 10, 11, 12, 13, 32, 160 :: nat})"

definition trim :: "string \<Rightarrow> string" where
  "trim s = rev (dropWhile is_white_space (rev (dropWhile is_white_space s)))"

definition toLowerCase_char :: "char \<Rightarrow> char" where
  \<comment> \<open>A to Z, and the upper-case letters of Latin-1 (U+00C0 to U+00DE without the
      multiplication sign U+00D7), move up by 32; every other code unit stays.\<close>
  "toLowerCase_char c = (let n = of_char c :: nat in
     if (65 \<le> n \<and> n \<le> 90) \<or> (192 \<le> n \<and> n \<le> 222 \<and> n \<noteq> 215)
     then char_of (n + 32) else c)"

definition toLowerCase :: "string \<Rightarrow> string" where
  "toLowerCase s = map toLowerCase_char s"

definition truthy :: "string option \<Rightarrow> bool" where
  \<comment> \<open>\<^verbatim>\<open>undefined\<close>, \<^verbatim>\<open>null\<close> and the empty string are falsy.\<close>
  "truthy x = (case x of None \<Rightarrow> False | Some s \<Rightarrow> s \<noteq> [])"

definition or_else :: "string option \<Rightarrow> string \<Rightarrow> string" where
  \<comment> \<open>\<^verbatim>\<open>x || d\<close> for a string-or-undefined \<^verbatim>\<open>x\<close>.\<close>
  "or_else x d = (case x of None \<Rightarrow> d | Some s \<Rightarrow> if s = [] then d else s)"

fun replace_crlf :: "string \<Rightarrow> string" where
  \<comment> \<open>\<^verbatim>\<open>s.replace(/\r\n/g, "\n")\<close>\<close>
  "replace_crlf (a # b # cs) =
     (if a = CHR 0x0D \<and> b = CHR 0x0A then CHR 0x0A # replace_crlf cs
      else a # replace_crlf (b # cs))"
| "replace_crlf cs = cs"

fun split_acc :: "char \<Rightarrow> string \<Rightarrow> string \<Rightarrow> string list" where
  \<comment> \<open>the pieces of a string between the occurrences of a one-character separator;
      the second argument is the piece being read, reversed\<close>
  "split_acc d acc [] = [rev acc]"
| "split_acc d acc (c # cs) =
     (if c = d then rev acc # split_acc d [] cs else split_acc d (c # acc) cs)"

definition split_char :: "char \<Rightarrow> string \<Rightarrow> string list" where
  \<comment> \<open>\<^verbatim>\<open>s.split("\n")\<close> and the like: empty pieces are kept\<close>
  "split_char d s = split_acc d [] s"

function split_runs :: "(char \<Rightarrow> bool) \<Rightarrow> string \<Rightarrow> string list" where
  \<comment> \<open>\<^verbatim>\<open>s.split(/[...]+/)\<close> for a character class: the string is cut at every maximal run of
      characters of the class; empty pieces at the two ends are kept\<close>
  "split_runs sep s =
     (case dropWhile (\<lambda>c. \<not> sep c) s of
        [] \<Rightarrow> [s]
      | c # rest \<Rightarrow> takeWhile (\<lambda>c. \<not> sep c) s # split_runs sep (dropWhile sep rest))"
  by pat_completeness auto
termination
proof (relation "measure (\<lambda>(sep, s). length s)")
  show "wf (measure (\<lambda>(sep, s). length s))" by simp
next
  fix sep :: "char \<Rightarrow> bool" and s :: string and c rest
  assume h: "dropWhile (\<lambda>c. \<not> sep c) s = c # rest"
  have "length (dropWhile sep rest) \<le> length rest"
    by (rule length_dropWhile_le)
  moreover have "length (c # rest) \<le> length s"
    unfolding h [symmetric] by (rule length_dropWhile_le)
  ultimately show "((sep, dropWhile sep rest), (sep, s)) \<in> measure (\<lambda>(sep, s). length s)"
    by simp
qed

declare split_runs.simps [simp del]

subsection \<open>Numbers\<close>

text \<open>
  A JavaScript number is kept as the mathematical value of its literal: a rational, one of
  the two infinities, or NaN. The rounding of that value to an IEEE double and the sign of
  zero are not modelled.
\<close>

datatype jsnum = NaN | Num rat | PosInf | NegInf

definition isNaN :: "jsnum \<Rightarrow> bool" where
  "isNaN x = (x = NaN)"

definition negate :: "jsnum \<Rightarrow> jsnum" where
  "negate x = (case x of NaN \<Rightarrow> NaN | Num r \<Rightarrow> Num (- r) | PosInf \<Rightarrow> NegInf | NegInf \<Rightarrow> PosInf)"

definition times_nat :: "jsnum \<Rightarrow> nat \<Rightarrow> jsnum" where
  \<comment> \<open>\<^verbatim>\<open>x * k\<close> for a positive integer constant \<^verbatim>\<open>k\<close>\<close>
  "times_nat x k = (case x of Num r \<Rightarrow> Num (r * of_nat k) | y \<Rightarrow> y)"

definition is_digit :: "nat \<Rightarrow> char \<Rightarrow> bool" where
  \<comment> \<open>a digit of base 2, 8, 10 or 16 (hexadecimal digits in either case)\<close>
  "is_digit base c = (let n = of_char c :: nat in
     (48 \<le> n \<and> n < 48 + min base 10) \<or>
     (base = 16 \<and> ((65 \<le> n \<and> n \<le> 70) \<or> (97 \<le> n \<and> n \<le> 102))))"

definition digit_value :: "char \<Rightarrow> nat" where
  "digit_value c = (let n = of_char c :: nat in
     if n \<le> 57 then n - 48 else if n \<le> 70 then n - 55 else n - 87)"

definition digits_value :: "nat \<Rightarrow> string \<Rightarrow> nat" where
  "digits_value base ds = foldl (\<lambda>a c. a * base + digit_value c) 0 ds"

definition all_digits :: "nat \<Rightarrow> string \<Rightarrow> bool" where
  "all_digits base ds = (ds \<noteq> [] \<and> list_all (is_digit base) ds)"

definition ExponentPart :: "string \<Rightarrow> rat \<Rightarrow> jsnum" where
  \<comment> \<open>what follows the mantissa \<^verbatim>\<open>m\<close> of a decimal literal: nothing, or \<^verbatim>\<open>e\<close>/\<^verbatim>\<open>E\<close> and a
      signed integer\<close>
  "ExponentPart r m =
     (case r of
        [] \<Rightarrow> Num m
      | e # r1 \<Rightarrow>
          if e = CHR ''e'' \<or> e = CHR ''E'' then
            (case r1 of
               [] \<Rightarrow> NaN
             | sg # r2 \<Rightarrow>
                 if sg = CHR ''-'' then
                   (if all_digits 10 r2 then Num (m / 10 ^ digits_value 10 r2) else NaN)
                 else if sg = CHR ''+'' then
                   (if all_digits 10 r2 then Num (m * 10 ^ digits_value 10 r2) else NaN)
                 else
                   (if all_digits 10 r1 then Num (m * 10 ^ digits_value 10 r1) else NaN))
          else NaN)"

definition StrUnsignedDecimalLiteral :: "string \<Rightarrow> jsnum" where
  "StrUnsignedDecimalLiteral t =
     (if t = ''Infinity'' then PosInf
      else
        let ip = takeWhile (is_digit 10) t; r1 = dropWhile (is_digit 10) t
        in (case r1 of
              [] \<Rightarrow> if ip = [] then NaN else Num (of_nat (digits_value 10 ip))
            | d # r2 \<Rightarrow>
                if d = CHR ''.'' then
                  (let fp = takeWhile (is_digit 10) r2; r3 = dropWhile (is_digit 10) r2
                   in if ip = [] \<and> fp = [] then NaN
                      else ExponentPart r3
                             (of_nat (digits_value 10 ip) +
                              of_nat (digits_value 10 fp) / 10 ^ length fp))
                else if ip = [] then NaN
                else ExponentPart r1 (of_nat (digits_value 10 ip))))"

definition NonDecimalIntegerLiteral :: "string \<Rightarrow> jsnum option" where
  \<comment> \<open>\<^verbatim>\<open>0b\<close>, \<^verbatim>\<open>0o\<close> and \<^verbatim>\<open>0x\<close> literals; \<open>None\<close> when the string has no such prefix\<close>
  "NonDecimalIntegerLiteral t =
     (case t of
        z # p # ds \<Rightarrow>
          if z \<noteq> CHR ''0'' then None
          else if p = CHR ''b'' \<or> p = CHR ''B'' then
            Some (if all_digits 2 ds then Num (of_nat (digits_value 2 ds)) else NaN)
          else if p = CHR ''o'' \<or> p = CHR ''O'' then
            Some (if all_digits 8 ds then Num (of_nat (digits_value 8 ds)) else NaN)
          else if p = CHR ''x'' \<or> p = CHR ''X'' then
            Some (if all_digits 16 ds then Num (of_nat (digits_value 16 ds)) else NaN)
          else None
      | _ \<Rightarrow> None)"

definition StringToNumber :: "string \<Rightarrow> jsnum" where
  \<comment> \<open>\<^verbatim>\<open>Number(s)\<close> for a string: the StringNumericLiteral grammar of ECMAScript\<close>
  "StringToNumber s =
     (let t = trim s in
      if t = [] then Num 0
      else (case NonDecimalIntegerLiteral t of
              Some v \<Rightarrow> v
            | None \<Rightarrow>
                (case t of
                   [] \<Rightarrow> NaN
                 | sg # u \<Rightarrow>
                     if sg = CHR ''+'' then StrUnsignedDecimalLiteral u
                     else if sg = CHR ''-'' then negate (StrUnsignedDecimalLiteral u)
                     else StrUnsignedDecimalLiteral t)))"

definition Number :: "string option \<Rightarrow> jsnum" where
  \<comment> \<open>\<^verbatim>\<open>Number(x)\<close> for a string or \<^verbatim>\<open>undefined\<close>; \<^verbatim>\<open>Number(undefined)\<close> is NaN\<close>
  "Number x = (case x of None \<Rightarrow> NaN | Some s \<Rightarrow> StringToNumber s)"

subsection \<open>JSON-like values\<close>

text \<open>
  An object is the list of its properties in insertion order. Assigning a property is
  \<^const>\<open>AList.update\<close>: an existing key keeps its place and gets the new value, a new key
  goes to the end. (JavaScript lists keys that are array indices first; no property here
  depends on the order of the keys.)
\<close>

datatype jsval =
    JUndefined
  | JNull
  | JBool bool
  | JNum jsnum
  | JStr string
  | JArr "jsval list"
  | JObj "(string \<times> jsval) list"

type_synonym fields = "(string \<times> jsval) list"

section \<open>ADF (Atlassian Document Format) builders\<close>

definition matches_after :: "string \<Rightarrow> string \<Rightarrow> bool" where
  \<comment> \<open>\<^verbatim>\<open>scheme\<close>, matched without regard to case, then \<^verbatim>\<open>\S+$\<close>\<close>
  "matches_after scheme t =
     (toLowerCase (take (length scheme) t) = scheme \<and>
      drop (length scheme) t \<noteq> [] \<and>
      list_all (\<lambda>c. \<not> is_white_space c) (drop (length scheme) t))"

definition isLikelyUrl :: "string \<Rightarrow> bool" where
  \<comment> \<open>\<^verbatim>\<open>/^https?:\/\/\S+$/i.test(s.trim())\<close>\<close>
  "isLikelyUrl s = (let t = trim s in matches_after ''http://'' t \<or> matches_after ''https://'' t)"

definition adfTextNode :: "string \<Rightarrow> jsval" where
  "adfTextNode text = JObj [(''type'', JStr ''text''), (''text'', JStr text)]"

definition adfLinkNode :: "string \<Rightarrow> string option \<Rightarrow> jsval" where
  "adfLinkNode url text =
     JObj [(''type'', JStr ''text''),
           (''text'', JStr (or_else text url)),
           (''marks'', JArr [JObj [(''type'', JStr ''link''),
                                   (''attrs'', JObj [(''href'', JStr url)])]])]"

definition adfParagraph :: "string \<Rightarrow> jsval" where
  \<comment> \<open>the body of the \<^verbatim>\<open>lines.map\<close> callback of \<^verbatim>\<open>toADF\<close>\<close>
  "adfParagraph line =
     (let t = trim line in
      if t = [] then JObj [(''type'', JStr ''paragraph'')]
      else if isLikelyUrl t then
        JObj [(''type'', JStr ''paragraph''), (''content'', JArr [adfLinkNode t None])]
      else
        JObj [(''type'', JStr ''paragraph''), (''content'', JArr [adfTextNode line])])"

definition toADF :: "string option \<Rightarrow> jsval option" where
  "toADF description =
     (case description of
        None \<Rightarrow> None
      | Some d \<Rightarrow>
          if d = [] \<or> trim d = [] then None
          else
            let lines = split_char (CHR 0x0A) (replace_crlf d);
                content = map adfParagraph lines
            in Some (JObj [(''version'', JNum (Num 1)),
                           (''type'', JStr ''doc''),
                           (''content'', JArr content)]))"

section \<open>Field Mapper\<close>

text \<open>
  A row of the CSV file maps column names to strings; a column the row does not have reads
  as \<^verbatim>\<open>undefined\<close>. The identifier map is a JavaScript \<^verbatim>\<open>Map\<close> from the local id of a row to
  the \<^verbatim>\<open>{ id, key }\<close> the destination returned for it, kept in insertion order. The
  variable \<^verbatim>\<open>fields\<close> of \<^verbatim>\<open>buildFields\<close> is written \<open>flds\<close>.
\<close>

type_synonym row = "string \<rightharpoonup> string"

record issue_ref =
  issue_id :: jsval
  issue_key :: jsval

type_synonym epicMap = "(string \<times> issue_ref) list"

record env =
  PROJECT_KEY :: string
  TEAM_MANAGED :: "string option"

record schema =
  epicLinkId :: "string option"
  storyPointsId :: "string option"
  epicNameId :: "string option"

record opts = schema +
  epicMap :: epicMap

datatype error =
    RowMissingSummary
    \<comment> \<open>\<^verbatim>\<open>new Error("Row missing 'Summary'")\<close>\<close>
  | RequestFailed string int jsval
    \<comment> \<open>\<^verbatim>\<open>new Error(`${desc} failed (status ${res.status}): ${JSON.stringify(res.data)}`)\<close>,
        kept as its three parts\<close>
  | TypeError
    \<comment> \<open>a property read or a method call on \<^verbatim>\<open>undefined\<close> or \<^verbatim>\<open>null\<close>\<close>

definition isTeamManaged :: "env \<Rightarrow> bool" where
  \<comment> \<open>\<^verbatim>\<open>String(process.env.TEAM_MANAGED || "false").toLowerCase() === "true"\<close>\<close>
  "isTeamManaged e = (toLowerCase (or_else (TEAM_MANAGED e) ''false'') = ''true'')"

definition label_separator :: "char \<Rightarrow> bool" where
  \<comment> \<open>the character class \<^verbatim>\<open>[,; ]\<close>\<close>
  "label_separator c = (c = CHR '','' \<or> c = CHR '';'' \<or> c = CHR '' '')"

definition split_labels :: "string \<Rightarrow> string list" where
  \<comment> \<open>\<^verbatim>\<open>s.split(/[,; ]+/).filter(Boolean)\<close>\<close>
  "split_labels s = filter (\<lambda>t. t \<noteq> []) (split_runs label_separator s)"

definition labels_of :: "row \<Rightarrow> string list" where
  \<comment> \<open>\<^verbatim>\<open>(row["Labels"] || "").split(/[,; ]+/).filter(Boolean)\<close>\<close>
  "labels_of row = split_labels (or_else (row ''Labels'') [])"

definition initial_fields :: "string \<Rightarrow> string \<Rightarrow> string \<Rightarrow> row \<Rightarrow> fields" where
  \<comment> \<open>the object literal that \<^verbatim>\<open>fields\<close> starts as\<close>
  "initial_fields projectKey issueType summary row =
     [(''project'', JObj [(''key'', JStr projectKey)]),
      (''issuetype'', JObj [(''name'', JStr issueType)]),
      (''summary'', JStr summary),
      (''labels'', JArr (map JStr (labels_of row)))]"

definition with_description :: "row \<Rightarrow> fields \<Rightarrow> fields" where
  \<comment> \<open>Description -> ADF\<close>
  "with_description row flds =
     (case toADF (row ''Description'') of
        None \<Rightarrow> flds
      | Some adf \<Rightarrow> AList.update ''description'' adf flds)"

definition with_story_points :: "opts \<Rightarrow> row \<Rightarrow> fields \<Rightarrow> fields" where
  \<comment> \<open>Story points\<close>
  "with_story_points opts row flds =
     (case storyPointsId opts of
        None \<Rightarrow> flds
      | Some k \<Rightarrow>
          if truthy (row ''Story Points'') \<and> k \<noteq> [] then
            (let sp = Number (row ''Story Points'')
             in if \<not> isNaN sp then AList.update k (JNum sp) flds else flds)
          else flds)"

definition with_epic_name :: "env \<Rightarrow> opts \<Rightarrow> row \<Rightarrow> string \<Rightarrow> fields \<Rightarrow> fields" where
  \<comment> \<open>Epics: the Epic Name custom field, in company-managed projects\<close>
  "with_epic_name e opts row summary flds =
     (case epicNameId opts of
        None \<Rightarrow> flds
      | Some k \<Rightarrow>
          if \<not> isTeamManaged e \<and> k \<noteq> [] then
            AList.update k (JStr (or_else (map_option trim (row ''Epic Name'')) summary)) flds
          else flds)"

definition with_parent :: "opts \<Rightarrow> row \<Rightarrow> string \<Rightarrow> fields \<Rightarrow> fields" where
  \<comment> \<open>Sub-task -> Parent\<close>
  "with_parent opts row issueType flds =
     (case map_option trim (row ''Parent Id'') of
        None \<Rightarrow> flds
      | Some parentId \<Rightarrow>
          if toLowerCase issueType = ''sub-task'' \<and> parentId \<noteq> [] then
            (case map_of (epicMap opts) parentId of
               None \<Rightarrow> flds
             | Some parent \<Rightarrow> AList.update ''parent'' (JObj [(''id'', issue_id parent)]) flds)
          else flds)"

definition with_epic_link :: "env \<Rightarrow> opts \<Rightarrow> row \<Rightarrow> fields \<Rightarrow> fields" where
  \<comment> \<open>Link to Epic\<close>
  "with_epic_link e opts row flds =
     (case map_option trim (row ''Epic Link'') of
        None \<Rightarrow> flds
      | Some epicLink \<Rightarrow>
          if epicLink \<noteq> [] then
            (case map_of (epicMap opts) epicLink of
               None \<Rightarrow> flds
             | Some epic \<Rightarrow>
                 if isTeamManaged e then
                   AList.update ''parent'' (JObj [(''id'', issue_id epic)]) flds
                 else
                   (case epicLinkId opts of
                      None \<Rightarrow> flds
                    | Some k \<Rightarrow>
                        if k \<noteq> [] then AList.update k (issue_key epic) flds else flds))
          else flds)"

definition issueType_of :: "row \<Rightarrow> string" where
  \<comment> \<open>\<^verbatim>\<open>row["Issue Type"]?.trim() || "Task"\<close>\<close>
  "issueType_of row = or_else (map_option trim (row ''Issue Type'')) ''Task''"

definition buildFields :: "env \<Rightarrow> opts \<Rightarrow> row \<Rightarrow> error + fields" where
  "buildFields e opts row =
     (let projectKey = or_else (map_option trim (row ''Project Key'')) (PROJECT_KEY e);
          issueType = issueType_of row
      in (case map_option trim (row ''Summary'') of
            None \<Rightarrow> Inl RowMissingSummary
          | Some summary \<Rightarrow>
              if summary = [] then Inl RowMissingSummary
              else
                let flds = with_story_points opts row
                               (with_description row
                                  (initial_fields projectKey issueType summary row))
                in if toLowerCase issueType = ''epic'' then
                     Inr (with_epic_name e opts row summary flds)
                   else
                     Inr (with_epic_link e opts row (with_parent opts row issueType flds))))"

section \<open>Resilient Request Executor\<close>

text \<open>
  The thunk \<^verbatim>\<open>fn\<close> performs one network call each time it is called. It is modelled by the
  sequence of the responses it gives: \<open>fn i\<close> answers call number \<open>i\<close>, counted from 0. Beside
  its outcome the executor returns what it did: the number of calls it made and the
  durations, in milliseconds, that it passed to \<^verbatim>\<open>setTimeout\<close>, in order.
\<close>

record response =
  status :: int
  headers :: "string \<rightharpoonup> string"
  data :: jsval

definition max_attempts :: nat where
  \<comment> \<open>\<^verbatim>\<open>const max = 5\<close>\<close>
  "max_attempts = 5"

function requestWithRetry_loop ::
  "(nat \<Rightarrow> response) \<Rightarrow> string \<Rightarrow> nat \<Rightarrow> nat \<Rightarrow> jsnum list
     \<Rightarrow> (error + response) \<times> nat \<times> jsnum list" where
  \<comment> \<open>the \<^verbatim>\<open>while (true)\<close> loop, entered with the current \<^verbatim>\<open>attempt\<close> (the number of calls made
      so far) and \<^verbatim>\<open>wait\<close>; \<open>attempt + 1\<close> is \<^verbatim>\<open>attempt\<close> after \<^verbatim>\<open>attempt++\<close>\<close>
  "requestWithRetry_loop fn desc attempt wait sleeps =
     (let res = fn attempt in
      if status res < 400 then (Inr res, attempt + 1, sleeps)
      else if attempt + 1 \<ge> max_attempts \<or> \<not> (status res = 429 \<or> status res \<ge> 500) then
        (Inl (RequestFailed desc (status res) (data res)), attempt + 1, sleeps)
      else
        let retryAfter = Number (headers res ''retry-after'');
            sleepMs = (if \<not> isNaN retryAfter then times_nat retryAfter 1000
                       else Num (of_nat wait))
        in requestWithRetry_loop fn desc (attempt + 1) (min (wait * 2) 15000)
             (sleeps @ [sleepMs]))"
  by pat_completeness auto
termination
  by (relation "measure (\<lambda>(fn, desc, attempt, wait, sleeps). max_attempts - attempt)") auto

declare requestWithRetry_loop.simps [simp del]

definition requestWithRetry ::
  "(nat \<Rightarrow> response) \<Rightarrow> string \<Rightarrow> (error + response) \<times> nat \<times> jsnum list" where
  "requestWithRetry fn desc = requestWithRetry_loop fn desc 0 1000 []"




section \<open>Import Orchestrator\<close>

text \<open>
  The destination is modelled by \<open>api\<close>: \<open>api n flds\<close> is the response to request number \<open>n\<close>
  of the run when that request posts the payload \<open>flds\<close>. A run carries the identifier map,
  the number of requests made so far, and the list of the issues created so far (one entry
  for each \<^verbatim>\<open>Created ...\<close> line that \<^verbatim>\<open>main\<close> prints).
\<close>

record created =
  c_row :: row
  c_fields :: fields
  c_resp :: jsval
  c_localId :: string
  c_ref :: issue_ref

record run =
  r_epicMap :: epicMap
  r_calls :: nat
  r_created :: "created list"

definition createIssue ::
  "(nat \<Rightarrow> fields \<Rightarrow> response) \<Rightarrow> nat \<Rightarrow> fields \<Rightarrow> (error + jsval) \<times> nat" where
  "createIssue api n flds =
     (case requestWithRetry (\<lambda>i. api (n + i) flds) ''create issue'' of
        (Inl err, k, sleeps) \<Rightarrow> (Inl err, n + k)
      | (Inr res, k, sleeps) \<Rightarrow> (Inr (data res), n + k))"

definition get_prop :: "jsval \<Rightarrow> string \<Rightarrow> error + jsval" where
  \<comment> \<open>\<^verbatim>\<open>v.id\<close> and \<^verbatim>\<open>v.key\<close>: a TypeError on \<^verbatim>\<open>undefined\<close> and \<^verbatim>\<open>null\<close>, the property of an
      object, \<^verbatim>\<open>undefined\<close> otherwise\<close>
  "get_prop v k =
     (case v of
        JUndefined \<Rightarrow> Inl TypeError
      | JNull \<Rightarrow> Inl TypeError
      | JObj ps \<Rightarrow> Inr (case map_of ps k of None \<Rightarrow> JUndefined | Some x \<Rightarrow> x)
      | _ \<Rightarrow> Inr JUndefined)"

definition localId :: "row \<Rightarrow> error + string" where
  \<comment> \<open>\<^verbatim>\<open>(row["Issue Id"] || row["Summary"]).trim()\<close>\<close>
  "localId row =
     (case (if truthy (row ''Issue Id'') then row ''Issue Id'' else row ''Summary'') of
        None \<Rightarrow> Inl TypeError
      | Some s \<Rightarrow> Inr (trim s))"

definition isEpicRow :: "row \<Rightarrow> bool" where
  \<comment> \<open>\<^verbatim>\<open>(row["Issue Type"] || "").toLowerCase() === "epic"\<close>\<close>
  "isEpicRow row = (toLowerCase (or_else (row ''Issue Type'') []) = ''epic'')"

definition opts_of :: "schema \<Rightarrow> epicMap \<Rightarrow> opts" where
  \<comment> \<open>\<^verbatim>\<open>{ epicLinkId, storyPointsId, epicNameId, epicMap }\<close>\<close>
  "opts_of sch m =
     \<lparr>epicLinkId = epicLinkId sch, storyPointsId = storyPointsId sch,
      epicNameId = epicNameId sch, epicMap = m\<rparr>"

definition createRow ::
  "env \<Rightarrow> schema \<Rightarrow> (nat \<Rightarrow> fields \<Rightarrow> response) \<Rightarrow> row \<Rightarrow> run \<Rightarrow> error + run" where
  \<comment> \<open>the body of the two \<^verbatim>\<open>for\<close> loops, which is the same in both\<close>
  "createRow e sch api row st =
     (case buildFields e (opts_of sch (r_epicMap st)) row of
        Inl err \<Rightarrow> Inl err
      | Inr flds \<Rightarrow>
          (case createIssue api (r_calls st) flds of
             (Inl err, n) \<Rightarrow> Inl err
           | (Inr resp, n) \<Rightarrow>
               (case localId row of
                  Inl err \<Rightarrow> Inl err
                | Inr k \<Rightarrow>
                    (case get_prop resp ''id'' of
                       Inl err \<Rightarrow> Inl err
                     | Inr i \<Rightarrow>
                         (case get_prop resp ''key'' of
                            Inl err \<Rightarrow> Inl err
                          | Inr ky \<Rightarrow>
                              let ref = \<lparr>issue_id = i, issue_key = ky\<rparr>
                              in Inr \<lparr>r_epicMap = AList.update k ref (r_epicMap st),
                                      r_calls = n,
                                      r_created = r_created st @
                                        [\<lparr>c_row = row, c_fields = flds, c_resp = resp,
                                          c_localId = k, c_ref = ref\<rparr>]\<rparr>)))))"

fun createRows ::
  "(row \<Rightarrow> bool) \<Rightarrow> env \<Rightarrow> schema \<Rightarrow> (nat \<Rightarrow> fields \<Rightarrow> response) \<Rightarrow> row list \<Rightarrow> run
     \<Rightarrow> error + run" where
  \<comment> \<open>\<^verbatim>\<open>for (const row of rows) if (...) { ... }\<close>; an exception ends the loop\<close>
  "createRows sel e sch api [] st = Inr st"
| "createRows sel e sch api (row # rows) st =
     (if sel row then
        (case createRow e sch api row st of
           Inl err \<Rightarrow> Inl err
         | Inr st' \<Rightarrow> createRows sel e sch api rows st')
      else createRows sel e sch api rows st)"

definition import_report :: "epicMap \<Rightarrow> jsval" where
  \<comment> \<open>\<^verbatim>\<open>[...epicMap]\<close>, the value that is written to \<^verbatim>\<open>import-report.json\<close>\<close>
  "import_report m =
     JArr (map (\<lambda>(k, ref). JArr [JStr k, JObj [(''id'', issue_id ref), (''key'', issue_key ref)]])
             m)"

definition main ::
  "env \<Rightarrow> schema \<Rightarrow> (nat \<Rightarrow> fields \<Rightarrow> response) \<Rightarrow> nat \<Rightarrow> row list \<Rightarrow> error + jsval \<times> run" where
  \<comment> \<open>\<^verbatim>\<open>main\<close> from the creation of \<^verbatim>\<open>epicMap\<close> on; \<open>n0\<close> requests were made before\<close>
  "main e sch api n0 rows =
     (case createRows isEpicRow e sch api rows \<lparr>r_epicMap = [], r_calls = n0, r_created = []\<rparr> of
        Inl err \<Rightarrow> Inl err
      | Inr st1 \<Rightarrow>
          (case createRows (\<lambda>row. \<not> isEpicRow row) e sch api rows st1 of
             Inl err \<Rightarrow> Inl err
           | Inr st2 \<Rightarrow> Inr (import_report (r_epicMap st2), st2)))"

section \<open>Notions used to state the properties\<close>

definition payload_keys :: "string list" where
  \<comment> \<open>the keys that \<^verbatim>\<open>buildFields\<close> writes under a fixed name\<close>
  "payload_keys = [''project'', ''issuetype'', ''summary'', ''labels'', ''description'', ''parent'']"

definition resolved_ids :: "'a schema_scheme \<Rightarrow> string list" where
  \<comment> \<open>the custom-field identifiers that are resolved, that is, truthy\<close>
  "resolved_ids sch =
     concat (map (\<lambda>x. case x of None \<Rightarrow> [] | Some k \<Rightarrow> if k = [] then [] else [k])
               [epicLinkId sch, storyPointsId sch, epicNameId sch])"

definition wf_schema :: "'a schema_scheme \<Rightarrow> bool" where
  \<comment> \<open>the three custom fields are different fields of the destination, and none of them is
      one of its system fields\<close>
  "wf_schema sch =
     (distinct (resolved_ids sch) \<and> list_all (\<lambda>k. k \<notin> set payload_keys) (resolved_ids sch))"

definition payload_field :: "error + fields \<Rightarrow> string \<Rightarrow> jsval option" where
  \<comment> \<open>the value of a key in the payload that \<^verbatim>\<open>buildFields\<close> returned, if it returned one and
      the key is there\<close>
  "payload_field r k = (case r of Inl err \<Rightarrow> None | Inr flds \<Rightarrow> map_of flds k)"

definition spec_bare_url :: "string \<Rightarrow> bool" where
  \<comment> \<open>the link predicate in the words of the specification: the trimmed line starts with
      \<^verbatim>\<open>http://\<close> or \<^verbatim>\<open>https://\<close> and has no white space in it\<close>
  "spec_bare_url t =
     ((take 7 t = ''http://'' \<or> take 8 t = ''https://'') \<and>
      list_all (\<lambda>c. \<not> is_white_space c) t)"

definition spec_label_separator :: "char \<Rightarrow> bool" where
  \<comment> \<open>the label separators in the words of the specification: comma, semicolon, or any
      white-space character\<close>
  "spec_label_separator c = (c = CHR '','' \<or> c = CHR '';'' \<or> is_white_space c)"

definition spec_split_labels :: "string \<Rightarrow> string list" where
  "spec_split_labels s = filter (\<lambda>t. t \<noteq> []) (split_runs spec_label_separator s)"

definition recorded :: "created \<Rightarrow> string \<times> issue_ref" where
  \<comment> \<open>the entry that \<^verbatim>\<open>epicMap.set\<close> writes for a created issue\<close>
  "recorded c = (c_localId c, c_ref c)"

definition map_after :: "created list \<Rightarrow> epicMap \<Rightarrow> epicMap" where
  \<comment> \<open>the identifier map after the entries of some created issues were written, in order\<close>
  "map_after cs m = foldl (\<lambda>m c. AList.update (c_localId c) (c_ref c) m) m cs"

fun built_in_order :: "env \<Rightarrow> schema \<Rightarrow> epicMap \<Rightarrow> created list \<Rightarrow> bool" where
  \<comment> \<open>each issue of the list was built from the identifier map that the issues before it
      left, and was recorded from its own row and response\<close>
  "built_in_order e sch m [] = True"
| "built_in_order e sch m (c # cs) =
     (buildFields e (opts_of sch m) (c_row c) = Inr (c_fields c) \<and>
      localId (c_row c) = Inr (c_localId c) \<and>
      get_prop (c_resp c) ''id'' = Inr (issue_id (c_ref c)) \<and>
      get_prop (c_resp c) ''key'' = Inr (issue_key (c_ref c)) \<and>
      built_in_order e sch (AList.update (c_localId c) (c_ref c) m) cs)"

definition tokens :: "(char \<Rightarrow> bool) \<Rightarrow> string \<Rightarrow> string list" where
  \<comment> \<open>the non-empty pieces of a string between runs of separators\<close>
  "tokens sep s = filter (\<lambda>t. t \<noteq> []) (split_runs sep s)"

definition common_fields :: "env \<Rightarrow> opts \<Rightarrow> row \<Rightarrow> string \<Rightarrow> fields" where
  \<comment> \<open>\<^verbatim>\<open>fields\<close> when \<^verbatim>\<open>buildFields\<close> reaches the test for epics\<close>
  "common_fields e opts row summary =
     with_story_points opts row (with_description row
       (initial_fields (or_else (map_option trim (row ''Project Key'')) (PROJECT_KEY e))
          (issueType_of row) summary row))"

definition parent_ref :: "opts \<Rightarrow> row \<Rightarrow> string \<Rightarrow> issue_ref option" where
  \<comment> \<open>the entry that the Parent Id of a sub-task resolves to, if any\<close>
  "parent_ref opts row t =
     (case row ''Parent Id'' of
        None \<Rightarrow> None
      | Some p \<Rightarrow>
          if toLowerCase t = ''sub-task'' \<and> trim p \<noteq> [] then map_of (epicMap opts) (trim p)
          else None)"

definition epic_ref :: "opts \<Rightarrow> row \<Rightarrow> issue_ref option" where
  \<comment> \<open>the entry that the Epic Link of a row resolves to, if any\<close>
  "epic_ref opts row =
     (case row ''Epic Link'' of
        None \<Rightarrow> None
      | Some l \<Rightarrow> if trim l \<noteq> [] then map_of (epicMap opts) (trim l) else None)"

definition payloads :: "error + jsval \<times> run \<Rightarrow> fields list" where
  \<comment> \<open>the payloads of the issues a run created, in the order of creation\<close>
  "payloads r = (case r of Inl err \<Rightarrow> [] | Inr (report, st) \<Rightarrow> map c_fields (r_created st))"

subsection \<open>Sample data\<close>

definition company_env :: env where
  "company_env = \<lparr>PROJECT_KEY = ''PRJ'', TEAM_MANAGED = None\<rparr>"

definition team_env :: env where
  "team_env = \<lparr>PROJECT_KEY = ''PRJ'', TEAM_MANAGED = Some ''true''\<rparr>"

definition sample_schema :: schema where
  "sample_schema =
     \<lparr>epicLinkId = Some ''customfield_10014'',
      storyPointsId = Some ''customfield_10016'',
      epicNameId = Some ''customfield_10011''\<rparr>"

definition sample_ref :: "nat \<Rightarrow> issue_ref" where
  "sample_ref n = \<lparr>issue_id = JNum (Num (of_nat n)), issue_key = JNum (Num (of_nat (100 + n)))\<rparr>"

definition sample_api :: "nat \<Rightarrow> fields \<Rightarrow> response" where
  \<comment> \<open>a destination that accepts every request and numbers the issues it creates\<close>
  "sample_api n flds =
     \<lparr>status = 201, headers = Map.empty,
      data = JObj [(''id'', JNum (Num (of_nat n))), (''key'', JNum (Num (of_nat (100 + n))))]\<rparr>"





definition rows_same_summary :: "row list" where
  \<comment> \<open>two rows with no Issue Id and the same Summary\<close>
  "rows_same_summary = [[''Summary'' \<mapsto> ''Fix bug''], [''Summary'' \<mapsto> ''Fix bug'']]"



section \<open>Auxiliary facts\<close>

subsection \<open>Splitting at runs of separators\<close>

lemma split_runs_no_sep:
  "\<forall>c\<in>set u. \<not> sep c \<Longrightarrow> split_runs sep u = [u]"
  by (subst split_runs.simps) (simp add: dropWhile_eq_Nil_conv[THEN iffD2])

lemma split_runs_at_sep:
  assumes "\<forall>c\<in>set u. \<not> sep c" "sep c"
  shows "split_runs sep (u @ c # v) = u # split_runs sep (dropWhile sep v)"
proof -
  have d: "dropWhile (\<lambda>c. \<not> sep c) (u @ c # v) = c # v"
    using assms by (simp add: dropWhile_append2)
  have t: "takeWhile (\<lambda>c. \<not> sep c) (u @ c # v) = u"
    using assms by (simp add: takeWhile_append2)
  show ?thesis
    by (subst split_runs.simps) (simp add: d t)
qed

lemma tokens_Nil: "tokens sep [] = []"
  by (simp add: tokens_def split_runs_no_sep)

lemma tokens_word: "t \<noteq> [] \<Longrightarrow> \<forall>c\<in>set t. \<not> sep c \<Longrightarrow> tokens sep t = [t]"
  by (simp add: tokens_def split_runs_no_sep)

lemma tokens_sep_Cons: "sep c \<Longrightarrow> tokens sep (c # v) = tokens sep (dropWhile sep v)"
  using split_runs_at_sep [of "[]" sep c v] by (simp add: tokens_def)

lemma tokens_dropWhile: "tokens sep (dropWhile sep v) = tokens sep v"
proof (cases v)
  case Nil
  then show ?thesis by simp
next
  case (Cons d w)
  then show ?thesis by (cases "sep d") (simp_all add: tokens_sep_Cons)
qed

lemma tokens_at_sep:
  assumes "\<forall>c\<in>set u. \<not> sep c" "sep c"
  shows "tokens sep (u @ c # v) = tokens sep u @ tokens sep v"
proof -
  have "tokens sep (u @ c # v) = filter (\<lambda>t. t \<noteq> []) [u] @ tokens sep (dropWhile sep v)"
    using split_runs_at_sep [OF assms, of v] by (simp add: tokens_def)
  also have "filter (\<lambda>t. t \<noteq> []) [u] = tokens sep u"
    using assms(1) by (simp add: tokens_def split_runs_no_sep)
  finally show ?thesis by (simp add: tokens_dropWhile)
qed

lemma tokens_append_sep:
  "sep c \<Longrightarrow> tokens sep (u @ c # v) = tokens sep u @ tokens sep v"
proof (induction u arbitrary: v rule: length_induct)
  case (1 u)
  show ?case
  proof (cases "\<forall>d\<in>set u. \<not> sep d")
    case True
    then show ?thesis using 1(2) by (rule tokens_at_sep)
  next
    case False
    then obtain a d b where u: "u = a @ d # b" and a: "\<forall>x\<in>set a. \<not> sep x" and d: "sep d"
      by (metis split_list_first_prop)
    have len: "length b < length u" using u by simp
    have "tokens sep (u @ c # v) = tokens sep (a @ d # (b @ c # v))" by (simp add: u)
    also have "\<dots> = tokens sep a @ tokens sep (b @ c # v)" using a d by (rule tokens_at_sep)
    also have "tokens sep (b @ c # v) = tokens sep b @ tokens sep v"
      using 1(1) len 1(2) by blast
    also have "tokens sep a @ tokens sep b @ tokens sep v = tokens sep u @ tokens sep v"
      using tokens_at_sep [OF a d, of b] by (simp add: u)
    finally show ?thesis by simp
  qed
qed

lemma split_labels_tokens: "split_labels s = tokens label_separator s"
  by (simp add: split_labels_def tokens_def)

section \<open>Properties of the Field Mapper\<close>

subsection \<open>Errors\<close>

lemma buildFields_Inl:
  "buildFields e opts row = Inl err \<longleftrightarrow>
     err = RowMissingSummary \<and> (\<forall>s. row ''Summary'' = Some s \<longrightarrow> trim s = [])"
  by (auto simp: buildFields_def Let_def split: option.splits)

subsection \<open>The payload, key by key\<close>

lemma wf_schema_not_key:
  assumes "wf_schema opts" "k \<in> set payload_keys"
  shows "storyPointsId opts \<noteq> Some k" "epicNameId opts \<noteq> Some k" "epicLinkId opts \<noteq> Some k"
proof -
  have ne: "k \<noteq> []" using assms(2) by (auto simp: payload_keys_def)
  have "k \<notin> set (resolved_ids opts)"
    using assms by (auto simp: wf_schema_def list_all_iff)
  then show "storyPointsId opts \<noteq> Some k" "epicNameId opts \<noteq> Some k" "epicLinkId opts \<noteq> Some k"
    using ne by (auto simp: resolved_ids_def)
qed

lemma map_of_initial_fields:
  "map_of (initial_fields p t s row) k =
     (if k = ''project'' then Some (JObj [(''key'', JStr p)])
      else if k = ''issuetype'' then Some (JObj [(''name'', JStr t)])
      else if k = ''summary'' then Some (JStr s)
      else if k = ''labels'' then Some (JArr (map JStr (labels_of row)))
      else None)"
  by (simp add: initial_fields_def)

lemma map_of_with_description:
  "map_of (with_description row f) k =
     (if k = ''description'' \<and> toADF (row ''Description'') \<noteq> None then toADF (row ''Description'')
      else map_of f k)"
  by (auto simp: with_description_def update_conv' split: option.splits)

lemma map_of_with_story_points:
  "map_of (with_story_points opts row f) k =
     (if storyPointsId opts = Some k \<and> k \<noteq> [] \<and> truthy (row ''Story Points'')
          \<and> \<not> isNaN (Number (row ''Story Points''))
      then Some (JNum (Number (row ''Story Points''))) else map_of f k)"
  by (auto simp: with_story_points_def update_conv' Let_def split: option.splits)

lemma map_of_with_epic_name:
  "map_of (with_epic_name e opts row s f) k =
     (if epicNameId opts = Some k \<and> k \<noteq> [] \<and> \<not> isTeamManaged e
      then Some (JStr (or_else (map_option trim (row ''Epic Name'')) s)) else map_of f k)"
  by (auto simp: with_epic_name_def update_conv' split: option.splits)

lemma map_of_with_parent:
  "map_of (with_parent opts row t f) k =
     (case parent_ref opts row t of
        Some parent \<Rightarrow> if k = ''parent'' then Some (JObj [(''id'', issue_id parent)]) else map_of f k
      | None \<Rightarrow> map_of f k)"
  by (auto simp: with_parent_def parent_ref_def update_conv' split: option.splits)

lemma map_of_with_epic_link:
  "map_of (with_epic_link e opts row f) k =
     (case epic_ref opts row of
        Some epic \<Rightarrow>
          if isTeamManaged e then
            (if k = ''parent'' then Some (JObj [(''id'', issue_id epic)]) else map_of f k)
          else if epicLinkId opts = Some k \<and> k \<noteq> [] then Some (issue_key epic)
          else map_of f k
      | None \<Rightarrow> map_of f k)"
  by (auto simp: with_epic_link_def epic_ref_def update_conv' split: option.splits)

lemma buildFields_unfold:
  "buildFields e opts row =
     (case row ''Summary'' of
        None \<Rightarrow> Inl RowMissingSummary
      | Some s \<Rightarrow>
          if trim s = [] then Inl RowMissingSummary
          else if toLowerCase (issueType_of row) = ''epic'' then
            Inr (with_epic_name e opts row (trim s) (common_fields e opts row (trim s)))
          else
            Inr (with_epic_link e opts row
                   (with_parent opts row (issueType_of row) (common_fields e opts row (trim s)))))"
  by (simp add: buildFields_def common_fields_def Let_def split: option.splits)

lemma map_of_common_fields:
  "map_of (common_fields e opts row s) k =
     (if storyPointsId opts = Some k \<and> k \<noteq> [] \<and> truthy (row ''Story Points'')
          \<and> \<not> isNaN (Number (row ''Story Points''))
      then Some (JNum (Number (row ''Story Points'')))
      else if k = ''description'' \<and> toADF (row ''Description'') \<noteq> None then toADF (row ''Description'')
      else if k = ''project'' then
        Some (JObj [(''key'', JStr (or_else (map_option trim (row ''Project Key'')) (PROJECT_KEY e)))])
      else if k = ''issuetype'' then Some (JObj [(''name'', JStr (issueType_of row))])
      else if k = ''summary'' then Some (JStr s)
      else if k = ''labels'' then Some (JArr (map JStr (labels_of row)))
      else None)"
  unfolding common_fields_def map_of_with_story_points map_of_with_description map_of_initial_fields
  by simp


lemma buildFields_Inr_summary:
  assumes "buildFields e opts row = Inr flds"
  shows "\<exists>s. row ''Summary'' = Some s \<and> trim s \<noteq> []"
proof (rule ccontr)
  assume "\<not> ?thesis"
  then have "\<forall>s. row ''Summary'' = Some s \<longrightarrow> trim s = []" by blast
  then have "buildFields e opts row = Inl RowMissingSummary" by (simp add: buildFields_Inl)
  with assms show False by simp
qed

lemma buildFields_epic:
  "row ''Summary'' = Some s \<Longrightarrow> trim s \<noteq> [] \<Longrightarrow> toLowerCase (issueType_of row) = ''epic'' \<Longrightarrow>
     buildFields e opts row = Inr (with_epic_name e opts row (trim s) (common_fields e opts row (trim s)))"
  by (simp add: buildFields_unfold)

lemma buildFields_non_epic:
  "row ''Summary'' = Some s \<Longrightarrow> trim s \<noteq> [] \<Longrightarrow> toLowerCase (issueType_of row) \<noteq> ''epic'' \<Longrightarrow>
     buildFields e opts row =
       Inr (with_epic_link e opts row
              (with_parent opts row (issueType_of row) (common_fields e opts row (trim s))))"
  by (simp add: buildFields_unfold)

lemma wf_schema_distinct:
  assumes "wf_schema opts" "k \<noteq> []"
  shows "storyPointsId opts = Some k \<Longrightarrow> epicLinkId opts \<noteq> Some k \<and> epicNameId opts \<noteq> Some k"
    and "epicLinkId opts = Some k \<Longrightarrow> storyPointsId opts \<noteq> Some k \<and> epicNameId opts \<noteq> Some k"
    and "epicNameId opts = Some k \<Longrightarrow> storyPointsId opts \<noteq> Some k \<and> epicLinkId opts \<noteq> Some k"
proof -
  have d: "distinct (resolved_ids opts)" using assms(1) by (simp add: wf_schema_def)
  show "storyPointsId opts = Some k \<Longrightarrow> epicLinkId opts \<noteq> Some k \<and> epicNameId opts \<noteq> Some k"
    using d assms(2) by (auto simp: resolved_ids_def)
  show "epicLinkId opts = Some k \<Longrightarrow> storyPointsId opts \<noteq> Some k \<and> epicNameId opts \<noteq> Some k"
    using d assms(2) by (auto simp: resolved_ids_def)
  show "epicNameId opts = Some k \<Longrightarrow> storyPointsId opts \<noteq> Some k \<and> epicLinkId opts \<noteq> Some k"
    using d assms(2) by (auto simp: resolved_ids_def)
qed

lemma wf_schema_custom:
  assumes "wf_schema opts" "k \<noteq> []"
    "storyPointsId opts = Some k \<or> epicLinkId opts = Some k \<or> epicNameId opts = Some k"
  shows "k \<notin> set payload_keys"
proof -
  have "k \<in> set (resolved_ids opts)"
    using assms(3)
  proof (elim disjE)
    assume "storyPointsId opts = Some k" then show ?thesis using assms(2) by (simp add: resolved_ids_def)
  next
    assume "epicLinkId opts = Some k" then show ?thesis using assms(2) by (simp add: resolved_ids_def)
  next
    assume "epicNameId opts = Some k" then show ?thesis using assms(2) by (simp add: resolved_ids_def)
  qed
  moreover have "\<forall>k\<in>set (resolved_ids opts). k \<notin> set payload_keys"
    using assms(1) by (simp add: wf_schema_def list_all_iff)
  ultimately show ?thesis by blast
qed

lemma payload_keys_simps:
  "k \<notin> set payload_keys \<Longrightarrow> k \<noteq> ''project'' \<and> k \<noteq> ''issuetype'' \<and> k \<noteq> ''summary'' \<and> k \<noteq> ''labels''
     \<and> k \<noteq> ''description'' \<and> k \<noteq> ''parent''"
  by (auto simp: payload_keys_def)

lemma buildFields_cases:
  assumes "buildFields e opts row = Inr flds"
  obtains s where "row ''Summary'' = Some s" "trim s \<noteq> []"
      "toLowerCase (issueType_of row) = ''epic''"
      "flds = with_epic_name e opts row (trim s) (common_fields e opts row (trim s))"
  | s where "row ''Summary'' = Some s" "trim s \<noteq> []"
      "toLowerCase (issueType_of row) \<noteq> ''epic''"
      "flds = with_epic_link e opts row
              (with_parent opts row (issueType_of row) (common_fields e opts row (trim s)))"
proof -
  from assms obtain s where s: "row ''Summary'' = Some s" "trim s \<noteq> []"
    using buildFields_Inr_summary by blast
  show thesis
  proof (cases "toLowerCase (issueType_of row) = ''epic''")
    case True
    with s assms have "flds = with_epic_name e opts row (trim s) (common_fields e opts row (trim s))"
      by (simp add: buildFields_epic)
    with s True show thesis by (rule that(1))
  next
    case False
    with s assms have "flds = with_epic_link e opts row
              (with_parent opts row (issueType_of row) (common_fields e opts row (trim s)))"
      by (simp add: buildFields_non_epic)
    with s False show thesis by (rule that(2))
  qed
qed

lemmas string_eval = trim_def is_white_space_def toLowerCase_def toLowerCase_char_def
  char_of_eq_iff truthy_def or_else_def

lemmas number_eval = Number_def StringToNumber_def NonDecimalIntegerLiteral_def
  StrUnsignedDecimalLiteral_def ExponentPart_def all_digits_def is_digit_def digits_value_def
  digit_value_def isNaN_def negate_def times_nat_def

lemmas adf_eval = toADF_def adfParagraph_def isLikelyUrl_def matches_after_def adfTextNode_def
  adfLinkNode_def split_char_def

lemmas mapper_eval = buildFields_def issueType_of_def initial_fields_def labels_of_def
  split_labels_def split_runs.simps label_separator_def with_description_def
  with_story_points_def with_epic_name_def with_parent_def with_epic_link_def isTeamManaged_def
  opts_of_def payload_field_def

lemmas sample_eval = company_env_def team_env_def sample_schema_def sample_ref_def sample_api_def

lemma buildFields_succeeds:
  assumes "row ''Summary'' = Some s" "trim s \<noteq> []"
  shows "\<exists>flds. buildFields e opts row = Inr flds"
proof (cases "buildFields e opts row")
  case (Inl err)
  then show ?thesis using assms by (simp add: buildFields_Inl)
next
  case (Inr flds)
  then show ?thesis by blast
qed

lemma trim_Fix_bug: "trim ''Fix bug'' = ''Fix bug''"
  by (simp add: trim_def is_white_space_def)

lemma wf_sample_schema: "wf_schema (opts_of sample_schema m)"
  by (simp add: wf_schema_def resolved_ids_def opts_of_def sample_schema_def payload_keys_def)

lemma stages_other_column:
  "c \<noteq> ''Labels'' \<Longrightarrow> initial_fields p t s (row(c := None)) = initial_fields p t s row"
  "c \<noteq> ''Description'' \<Longrightarrow> with_description (row(c := None)) f = with_description row f"
  "c \<noteq> ''Story Points'' \<Longrightarrow> with_story_points opts (row(c := None)) f = with_story_points opts row f"
  "c \<noteq> ''Epic Name'' \<Longrightarrow> with_epic_name e opts (row(c := None)) s f = with_epic_name e opts row s f"
  "c \<noteq> ''Parent Id'' \<Longrightarrow> with_parent opts (row(c := None)) t f = with_parent opts row t f"
  "c \<noteq> ''Epic Link'' \<Longrightarrow> with_epic_link e opts (row(c := None)) f = with_epic_link e opts row f"
  "c \<noteq> ''Issue Type'' \<Longrightarrow> issueType_of (row(c := None)) = issueType_of row"
  by (simp_all add: initial_fields_def labels_of_def with_description_def with_story_points_def
      with_epic_name_def with_parent_def with_epic_link_def issueType_of_def
      cong: option.case_cong if_cong)

lemma buildFields_drop_column:
  assumes "c \<in> {''Story Points'', ''Parent Id'', ''Epic Link''}"
    "\<And>f. with_story_points opts (row(c := None)) f = with_story_points opts row f"
    "\<And>t f. with_parent opts (row(c := None)) t f = with_parent opts row t f"
    "\<And>f. with_epic_link e opts (row(c := None)) f = with_epic_link e opts row f"
  shows "buildFields e opts (row(c := None)) = buildFields e opts row"
proof -
  have c: "c \<noteq> ''Summary''" "c \<noteq> ''Project Key''" "c \<noteq> ''Issue Type''" "c \<noteq> ''Labels''"
    "c \<noteq> ''Description''" "c \<noteq> ''Epic Name''"
    using assms(1) by auto
  have cf: "common_fields e opts (row(c := None)) s = common_fields e opts row s" for s
    using c by (simp add: common_fields_def stages_other_column assms(2))
  show ?thesis
    unfolding buildFields_unfold using c
    by (simp add: cf stages_other_column assms(3,4) cong: option.case_cong if_cong)
qed



lemma toLowerCase_epic_cases:
  "toLowerCase ''Epic'' = ''epic''" "toLowerCase ''Task'' \<noteq> ''epic''"
  "toLowerCase ''Sub-task'' = ''sub-task''" "toLowerCase ''sub-task'' \<noteq> ''epic''"
  by (simp_all add: toLowerCase_def toLowerCase_char_def char_of_eq_iff)

lemma epic_ref_Some:
  "row ''Epic Link'' = Some l \<Longrightarrow> trim l \<noteq> [] \<Longrightarrow> map_of (epicMap opts) (trim l) = Some epic \<Longrightarrow>
     epic_ref opts row = Some epic"
  by (simp add: epic_ref_def)

lemma with_epic_link_unresolved:
  "row ''Epic Link'' = Some l \<Longrightarrow> map_of (epicMap opts) (trim l) = None \<Longrightarrow>
     with_epic_link e opts row f = f"
  by (simp add: with_epic_link_def)

lemma with_epic_link_absent: "row ''Epic Link'' = None \<Longrightarrow> with_epic_link e opts row f = f"
  by (simp add: with_epic_link_def)

lemma with_parent_unresolved:
  "row ''Parent Id'' = Some p \<Longrightarrow> map_of (epicMap opts) (trim p) = None \<Longrightarrow>
     with_parent opts row t f = f"
  by (simp add: with_parent_def)

lemma with_parent_absent: "row ''Parent Id'' = None \<Longrightarrow> with_parent opts row t f = f"
  by (simp add: with_parent_def)

lemma distinct_keys_stages:
  "distinct (map fst (initial_fields p t s row))"
  "distinct (map fst f) \<Longrightarrow> distinct (map fst (with_description row f))"
  "distinct (map fst f) \<Longrightarrow> distinct (map fst (with_story_points opts row f))"
  "distinct (map fst f) \<Longrightarrow> distinct (map fst (with_epic_name e opts row s f))"
  "distinct (map fst f) \<Longrightarrow> distinct (map fst (with_parent opts row t f))"
  "distinct (map fst f) \<Longrightarrow> distinct (map fst (with_epic_link e opts row f))"
  by (simp_all add: initial_fields_def with_description_def with_story_points_def
      with_epic_name_def with_parent_def with_epic_link_def Let_def distinct_update
      split: option.split)

lemma buildFields_distinct_keys:
  assumes "buildFields e opts row = Inr flds"
  shows "distinct (map fst flds)"
  using assms
proof (cases rule: buildFields_cases)
  case (1 s)
  then show ?thesis by (simp add: common_fields_def distinct_keys_stages)
next
  case (2 s)
  then show ?thesis by (simp add: common_fields_def distinct_keys_stages)
qed

lemma one_entry_of_key:
  assumes "distinct (map fst al)" "map_of al k = Some v"
  shows "length (filter (\<lambda>kv. fst kv = k) al) = 1"
  using assms
proof (induction al)
  case Nil
  then show ?case by simp
next
  case (Cons a al)
  show ?case
  proof (cases "fst a = k")
    case True
    with Cons.prems(1) have "\<forall>kv\<in>set al. fst kv \<noteq> k" by (force simp: image_iff)
    then have "filter (\<lambda>kv. fst kv = k) al = []" by (simp add: filter_empty_conv)
    with True show ?thesis by simp
  next
    case False
    with Cons.prems have "map_of al k = Some v" by (cases a) auto
    with Cons.IH Cons.prems(1) False show ?thesis by simp
  qed
qed

lemma isTeamManaged_samples: "isTeamManaged team_env" "\<not> isTeamManaged company_env"
  by (simp_all add: isTeamManaged_def team_env_def company_env_def or_else_def toLowerCase_def
      toLowerCase_char_def char_of_eq_iff)

lemma trim_samples:
  "trim ''Fix bug'' = ''Fix bug''" "trim ''Release'' = ''Release''" "trim ''Epic'' = ''Epic''"
  "trim ''Task'' = ''Task''" "trim ''Sub-task'' = ''Sub-task''" "trim ''E1'' = ''E1''"
  "trim ''S1'' = ''S1''" "trim '' E1 '' = ''E1''" "trim ''E9'' = ''E9''"
  by (simp_all add: trim_def is_white_space_def)

lemma stages_other_map:
  "with_story_points (opts\<lparr>epicMap := m\<rparr>) row f = with_story_points opts row f"
  "with_epic_name e (opts\<lparr>epicMap := m\<rparr>) row s f = with_epic_name e opts row s f"
  "common_fields e (opts\<lparr>epicMap := m\<rparr>) row s = common_fields e opts row s"
  by (simp_all add: with_story_points_def with_epic_name_def common_fields_def)

lemma epic_row_independent:
  assumes "toLowerCase (issueType_of row) = ''epic''" "buildFields e opts row = Inr flds"
  shows "buildFields e (opts\<lparr>epicMap := m\<rparr>)
           (row(''Parent Id'' := None, ''Epic Link'' := None)) = Inr flds"
proof -
  let ?row = "row(''Parent Id'' := None, ''Epic Link'' := None)"
  from assms(2) obtain s where s: "row ''Summary'' = Some s" "trim s \<noteq> []"
    using buildFields_Inr_summary by blast
  have flds: "flds = with_epic_name e opts row (trim s) (common_fields e opts row (trim s))"
    using buildFields_epic [of row s e opts] s assms by simp
  have t: "issueType_of ?row = issueType_of row" by (simp add: stages_other_column)
  have c: "common_fields e opts ?row (trim s) = common_fields e opts row (trim s)"
    by (simp add: common_fields_def stages_other_column)
  have "buildFields e (opts\<lparr>epicMap := m\<rparr>) ?row
      = Inr (with_epic_name e (opts\<lparr>epicMap := m\<rparr>) ?row (trim s)
               (common_fields e (opts\<lparr>epicMap := m\<rparr>) ?row (trim s)))"
    using buildFields_epic [of ?row s e "opts\<lparr>epicMap := m\<rparr>"] s assms(1) by (simp add: t)
  then show ?thesis
    by (simp add: stages_other_map c flds stages_other_column)
qed

lemma labels_key_present:
  assumes "buildFields e opts row = Inr flds"
  shows "map_of flds ''labels'' \<noteq> None"
  using assms
proof (cases rule: buildFields_cases)
  case (1 s)
  then show ?thesis by (simp add: map_of_with_epic_name map_of_common_fields)
next
  case (2 s)
  then show ?thesis
    by (simp add: map_of_with_epic_link map_of_with_parent map_of_common_fields
        split: option.split)
qed

subsection \<open>Claims\<close>

text \<open>
  Claim C3. \<^verbatim>\<open>buildFields\<close> throws exactly when the Summary of the row is absent, empty or
  made of white space only, that is, when nothing is left of it after trimming; the error
  is then the one with the message \<^verbatim>\<open>Row missing 'Summary'\<close>, and it throws no other. In
  particular a row that has a Summary with something left after trimming, and no other
  column, gets a payload.
\<close>

theorem buildFields_throws_iff:
  "(buildFields e opts row = Inl RowMissingSummary \<longleftrightarrow>
      (\<forall>s. row ''Summary'' = Some s \<longrightarrow> trim s = []))
   \<and> (\<forall>err. buildFields e opts row = Inl err \<longrightarrow> err = RowMissingSummary)
   \<and> (trim s \<noteq> [] \<longrightarrow> (\<exists>flds. buildFields e opts [''Summary'' \<mapsto> s] = Inr flds))"
proof (intro conjI allI impI)
  show "buildFields e opts row = Inl RowMissingSummary \<longleftrightarrow>
      (\<forall>s. row ''Summary'' = Some s \<longrightarrow> trim s = [])"
    by (simp add: buildFields_Inl)
next
  fix err assume "buildFields e opts row = Inl err"
  then show "err = RowMissingSummary" by (simp add: buildFields_Inl)
next
  assume ne: "trim s \<noteq> []"
  show "\<exists>flds. buildFields e opts [''Summary'' \<mapsto> s] = Inr flds"
  proof (cases "buildFields e opts [''Summary'' \<mapsto> s]")
    case (Inl err)
    then have "trim s = []" by (simp add: buildFields_Inl)
    with ne show ?thesis by simp
  next
    case (Inr flds)
    then show ?thesis by blast
  qed
qed

theorem buildFields_throws_iff_witness:
  "buildFields company_env (opts_of sample_schema []) [''Summary'' \<mapsto> ''   '']
     = Inl RowMissingSummary
   \<and> (\<exists>flds. buildFields company_env (opts_of sample_schema []) [''Summary'' \<mapsto> '' Fix bug '']
         = Inr flds)"
proof -
  have blank: "trim ''   '' = []" by (simp add: trim_def is_white_space_def)
  have full: "trim '' Fix bug '' \<noteq> []" by (simp add: trim_def is_white_space_def)
  from buildFields_throws_iff [of company_env "opts_of sample_schema []"
      "[''Summary'' \<mapsto> ''   '']" "'' Fix bug ''"] blank full
  show ?thesis by simp
qed

text \<open>
  Claim C4. The payload of a row whose issue type is \<^verbatim>\<open>epic\<close> in any letter case is the
  same whatever its Parent Id, its Epic Link and the identifier map are: no parent or
  epic link is put into it. In company-managed mode its epic-name field, when resolved, is
  the trimmed Epic Name of the row, or the trimmed Summary when the Epic Name is absent or
  has nothing left after trimming. When the custom fields of the schema are different from
  one another and from the system fields, the payload has no \<^verbatim>\<open>parent\<close> key and no
  epic-link field, and in team-managed mode no epic-name field.
\<close>

theorem epic_payload:
  assumes "toLowerCase (issueType_of row) = ''epic''" "buildFields e opts row = Inr flds"
  shows "(\<forall>m. buildFields e (opts\<lparr>epicMap := m\<rparr>)
              (row(''Parent Id'' := None, ''Epic Link'' := None)) = Inr flds)
     \<and> (\<forall>k s. \<not> isTeamManaged e \<and> epicNameId opts = Some k \<and> k \<noteq> []
              \<and> row ''Summary'' = Some s \<longrightarrow>
          map_of flds k =
            Some (JStr (case row ''Epic Name'' of
                          None \<Rightarrow> trim s
                        | Some n \<Rightarrow> if trim n = [] then trim s else trim n)))
     \<and> (wf_schema opts \<longrightarrow>
          map_of flds ''parent'' = None
          \<and> (\<forall>k. epicLinkId opts = Some k \<and> k \<noteq> [] \<longrightarrow> map_of flds k = None)
          \<and> (\<forall>k. isTeamManaged e \<and> epicNameId opts = Some k \<and> k \<noteq> [] \<longrightarrow>
                map_of flds k = None))"
proof -
  from assms(2) obtain s where s: "row ''Summary'' = Some s" "trim s \<noteq> []"
    using buildFields_Inr_summary by blast
  have flds: "flds = with_epic_name e opts row (trim s) (common_fields e opts row (trim s))"
    using buildFields_epic [of row s e opts] s assms by simp
  have 0: "\<forall>m. buildFields e (opts\<lparr>epicMap := m\<rparr>)
              (row(''Parent Id'' := None, ''Epic Link'' := None)) = Inr flds"
    using epic_row_independent [OF assms] by blast
  have 3: "\<forall>k s'. \<not> isTeamManaged e \<and> epicNameId opts = Some k \<and> k \<noteq> []
              \<and> row ''Summary'' = Some s' \<longrightarrow>
          map_of flds k =
            Some (JStr (case row ''Epic Name'' of
                          None \<Rightarrow> trim s'
                        | Some n \<Rightarrow> if trim n = [] then trim s' else trim n))"
  proof (intro allI impI)
    fix k s'
    assume k: "\<not> isTeamManaged e \<and> epicNameId opts = Some k \<and> k \<noteq> []
              \<and> row ''Summary'' = Some s'"
    with s have ss: "s' = s" by simp
    show "map_of flds k =
            Some (JStr (case row ''Epic Name'' of
                          None \<Rightarrow> trim s'
                        | Some n \<Rightarrow> if trim n = [] then trim s' else trim n))"
      using k by (simp add: flds ss map_of_with_epic_name or_else_def split: option.split)
  qed
  have 4: "map_of flds ''parent'' = None
          \<and> (\<forall>k. epicLinkId opts = Some k \<and> k \<noteq> [] \<longrightarrow> map_of flds k = None)
          \<and> (\<forall>k. isTeamManaged e \<and> epicNameId opts = Some k \<and> k \<noteq> [] \<longrightarrow>
                map_of flds k = None)"
    if wf: "wf_schema opts"
  proof (intro conjI allI impI)
    have "''parent'' \<in> set payload_keys" by (simp add: payload_keys_def)
    note p = wf_schema_not_key [OF wf this]
    show "map_of flds ''parent'' = None"
      by (simp add: flds map_of_with_epic_name map_of_common_fields p)
  next
    fix k assume k: "epicLinkId opts = Some k \<and> k \<noteq> []"
    have nk: "k \<notin> set payload_keys"
      using k by (intro wf_schema_custom [OF wf]) simp_all
    note ks = payload_keys_simps [OF nk]
    from k have d: "storyPointsId opts \<noteq> Some k" "epicNameId opts \<noteq> Some k"
      using wf_schema_distinct(2) [OF wf, of k] by auto
    show "map_of flds k = None"
      by (simp add: flds map_of_with_epic_name map_of_common_fields ks d)
  next
    fix k assume k: "isTeamManaged e \<and> epicNameId opts = Some k \<and> k \<noteq> []"
    have nk: "k \<notin> set payload_keys"
      using k by (intro wf_schema_custom [OF wf]) simp_all
    note ks = payload_keys_simps [OF nk]
    from k have d: "storyPointsId opts \<noteq> Some k" "epicLinkId opts \<noteq> Some k"
      using wf_schema_distinct(3) [OF wf, of k] by auto
    show "map_of flds k = None"
      using k by (simp add: flds map_of_with_epic_name map_of_common_fields ks d)
  qed
  from 0 3 4 show ?thesis by blast
qed

theorem epic_payload_witness:
  "payload_field (buildFields company_env (opts_of sample_schema [(''E0'', sample_ref 0)])
       [''Summary'' \<mapsto> ''Release'', ''Issue Type'' \<mapsto> ''Epic'', ''Epic Link'' \<mapsto> ''E0'',
        ''Parent Id'' \<mapsto> ''E0'']) ''customfield_10011'' = Some (JStr ''Release'')
   \<and> payload_field (buildFields company_env (opts_of sample_schema [(''E0'', sample_ref 0)])
       [''Summary'' \<mapsto> ''Release'', ''Issue Type'' \<mapsto> ''Epic'', ''Epic Link'' \<mapsto> ''E0'',
        ''Parent Id'' \<mapsto> ''E0'']) ''parent'' = None
   \<and> payload_field (buildFields company_env (opts_of sample_schema [(''E0'', sample_ref 0)])
       [''Summary'' \<mapsto> ''Release'', ''Issue Type'' \<mapsto> ''Epic'', ''Epic Link'' \<mapsto> ''E0'',
        ''Parent Id'' \<mapsto> ''E0'']) ''customfield_10014'' = None
   \<and> payload_field (buildFields team_env (opts_of sample_schema [(''E0'', sample_ref 0)])
       [''Summary'' \<mapsto> ''Release'', ''Issue Type'' \<mapsto> ''Epic'', ''Epic Link'' \<mapsto> ''E0'',
        ''Parent Id'' \<mapsto> ''E0'']) ''customfield_10011'' = None"
proof -
  let ?o = "opts_of sample_schema [(''E0'', sample_ref 0)]"
  let ?r = "[''Summary'' \<mapsto> ''Release'', ''Issue Type'' \<mapsto> ''Epic'', ''Epic Link'' \<mapsto> ''E0'',
        ''Parent Id'' \<mapsto> ''E0'']"
  obtain f where f: "buildFields company_env ?o ?r = Inr f"
    using buildFields_succeeds [of ?r "''Release''" company_env ?o] by (auto simp: trim_samples)
  obtain g where g: "buildFields team_env ?o ?r = Inr g"
    using buildFields_succeeds [of ?r "''Release''" team_env ?o] by (auto simp: trim_samples)
  have epic: "toLowerCase (issueType_of ?r) = ''epic''"
    by (simp add: issueType_of_def or_else_def trim_samples toLowerCase_epic_cases)
  have ids: "epicLinkId ?o = Some ''customfield_10014''" "epicNameId ?o = Some ''customfield_10011''"
    by (simp_all add: opts_of_def sample_schema_def)
  note pf = epic_payload [OF epic f]
  note pg = epic_payload [OF epic g]
  have 1: "map_of f ''customfield_10011'' = Some (JStr ''Release'')"
    using pf [THEN conjunct2, THEN conjunct1, rule_format, of "''customfield_10011''" "''Release''"]
    by (simp add: ids isTeamManaged_samples trim_samples)
  have 2: "map_of f ''parent'' = None" "map_of f ''customfield_10014'' = None"
    using pf [THEN conjunct2, THEN conjunct2, rule_format, OF wf_sample_schema]
    by (simp_all add: ids)
  have 3: "map_of g ''customfield_10011'' = None"
    using pg [THEN conjunct2, THEN conjunct2, rule_format, OF wf_sample_schema]
    by (simp add: ids isTeamManaged_samples)
  show ?thesis by (simp add: f g 1 2 3 payload_field_def)
qed

text \<open>
  Claim C5. For a row that is not an epic and whose Epic Link, trimmed, is not empty and is
  in the identifier map: in team-managed mode the payload has \<^verbatim>\<open>parent\<close> with the mapped
  \<^verbatim>\<open>id\<close>; in company-managed mode, with the epic-link field resolved, it has that field with
  the mapped \<^verbatim>\<open>key\<close>. An Epic Link that is not in the map changes nothing: the result is the
  one for the row without the column; the same holds for a Parent Id that is not in the
  map. When the Epic Link is not in the map and the Parent Id is absent or not in the map,
  the payload has neither \<^verbatim>\<open>parent\<close> nor the epic-link field (for custom fields different
  from one another and from the system fields). Whatever the map holds, a row with a
  Summary that is not blank gets a payload.
\<close>

theorem epic_link_resolution:
  "(toLowerCase (issueType_of row) \<noteq> ''epic'' \<and> buildFields e opts row = Inr flds \<and>
      row ''Epic Link'' = Some l \<and> trim l \<noteq> [] \<and> map_of (epicMap opts) (trim l) = Some epic \<longrightarrow>
        (isTeamManaged e \<longrightarrow> map_of flds ''parent'' = Some (JObj [(''id'', issue_id epic)]))
      \<and> (\<not> isTeamManaged e \<and> epicLinkId opts = Some k \<and> k \<noteq> [] \<longrightarrow>
            map_of flds k = Some (issue_key epic)))
   \<and> (row ''Epic Link'' = Some l \<and> map_of (epicMap opts) (trim l) = None \<longrightarrow>
        buildFields e opts row = buildFields e opts (row(''Epic Link'' := None)))
   \<and> (row ''Parent Id'' = Some p \<and> map_of (epicMap opts) (trim p) = None \<longrightarrow>
        buildFields e opts row = buildFields e opts (row(''Parent Id'' := None)))
   \<and> (wf_schema opts \<and> buildFields e opts row = Inr flds \<and>
        row ''Epic Link'' = Some l \<and> map_of (epicMap opts) (trim l) = None \<and>
        (\<forall>p. row ''Parent Id'' = Some p \<longrightarrow> map_of (epicMap opts) (trim p) = None) \<longrightarrow>
          map_of flds ''parent'' = None
        \<and> (epicLinkId opts = Some k \<and> k \<noteq> [] \<longrightarrow> map_of flds k = None))
   \<and> (row ''Summary'' = Some s \<and> trim s \<noteq> [] \<longrightarrow> (\<exists>f. buildFields e opts row = Inr f))"
proof (intro conjI)
  show "toLowerCase (issueType_of row) \<noteq> ''epic'' \<and> buildFields e opts row = Inr flds \<and>
      row ''Epic Link'' = Some l \<and> trim l \<noteq> [] \<and> map_of (epicMap opts) (trim l) = Some epic \<longrightarrow>
        (isTeamManaged e \<longrightarrow> map_of flds ''parent'' = Some (JObj [(''id'', issue_id epic)]))
      \<and> (\<not> isTeamManaged e \<and> epicLinkId opts = Some k \<and> k \<noteq> [] \<longrightarrow>
            map_of flds k = Some (issue_key epic))"
  proof (intro impI)
    assume h: "toLowerCase (issueType_of row) \<noteq> ''epic'' \<and> buildFields e opts row = Inr flds \<and>
      row ''Epic Link'' = Some l \<and> trim l \<noteq> [] \<and> map_of (epicMap opts) (trim l) = Some epic"
    then have er: "epic_ref opts row = Some epic" by (simp add: epic_ref_Some)
    from h have b: "buildFields e opts row = Inr flds" by simp
    from b obtain s' where s: "row ''Summary'' = Some s'" "trim s' \<noteq> []"
      using buildFields_Inr_summary by blast
    have flds: "flds = with_epic_link e opts row
              (with_parent opts row (issueType_of row) (common_fields e opts row (trim s')))"
      using buildFields_non_epic [of row s' e opts] s h by simp
    show "(isTeamManaged e \<longrightarrow> map_of flds ''parent'' = Some (JObj [(''id'', issue_id epic)]))
      \<and> (\<not> isTeamManaged e \<and> epicLinkId opts = Some k \<and> k \<noteq> [] \<longrightarrow>
            map_of flds k = Some (issue_key epic))"
      by (simp add: flds map_of_with_epic_link er)
  qed
next
  show "row ''Epic Link'' = Some l \<and> map_of (epicMap opts) (trim l) = None \<longrightarrow>
        buildFields e opts row = buildFields e opts (row(''Epic Link'' := None))"
  proof (intro impI)
    assume h: "row ''Epic Link'' = Some l \<and> map_of (epicMap opts) (trim l) = None"
    have "buildFields e opts (row(''Epic Link'' := None)) = buildFields e opts row"
      using h by (intro buildFields_drop_column)
        (simp_all add: stages_other_column with_epic_link_unresolved [of row l]
          with_epic_link_absent)
    then show "buildFields e opts row = buildFields e opts (row(''Epic Link'' := None))" by simp
  qed
next
  show "row ''Parent Id'' = Some p \<and> map_of (epicMap opts) (trim p) = None \<longrightarrow>
        buildFields e opts row = buildFields e opts (row(''Parent Id'' := None))"
  proof (intro impI)
    assume h: "row ''Parent Id'' = Some p \<and> map_of (epicMap opts) (trim p) = None"
    have "buildFields e opts (row(''Parent Id'' := None)) = buildFields e opts row"
      using h by (intro buildFields_drop_column)
        (simp_all add: stages_other_column with_parent_unresolved [of row p]
          with_parent_absent)
    then show "buildFields e opts row = buildFields e opts (row(''Parent Id'' := None))" by simp
  qed
next
  show "wf_schema opts \<and> buildFields e opts row = Inr flds \<and>
        row ''Epic Link'' = Some l \<and> map_of (epicMap opts) (trim l) = None \<and>
        (\<forall>p. row ''Parent Id'' = Some p \<longrightarrow> map_of (epicMap opts) (trim p) = None) \<longrightarrow>
          map_of flds ''parent'' = None
        \<and> (epicLinkId opts = Some k \<and> k \<noteq> [] \<longrightarrow> map_of flds k = None)"
  proof (intro impI)
    assume h: "wf_schema opts \<and> buildFields e opts row = Inr flds \<and>
        row ''Epic Link'' = Some l \<and> map_of (epicMap opts) (trim l) = None \<and>
        (\<forall>p. row ''Parent Id'' = Some p \<longrightarrow> map_of (epicMap opts) (trim p) = None)"
    then have wf: "wf_schema opts" and b: "buildFields e opts row = Inr flds" by simp_all
    have "''parent'' \<in> set payload_keys" by (simp add: payload_keys_def)
    note pk = wf_schema_not_key [OF wf this]
    from h have el: "\<And>f. with_epic_link e opts row f = f"
      by (simp add: with_epic_link_unresolved [of row l])
    have pa: "with_parent opts row t f = f" for t f
    proof (cases "row ''Parent Id''")
      case None
      then show ?thesis by (rule with_parent_absent)
    next
      case (Some p')
      with h have "map_of (epicMap opts) (trim p') = None" by simp
      with Some show ?thesis by (rule with_parent_unresolved)
    qed
    have 1: "map_of flds ''parent'' = None"
      using b
    proof (cases rule: buildFields_cases)
      case (1 s)
      then show ?thesis by (simp add: map_of_with_epic_name map_of_common_fields pk)
    next
      case (2 s)
      then show ?thesis by (simp add: el pa map_of_common_fields pk)
    qed
    have 2: "map_of flds k = None" if k: "epicLinkId opts = Some k \<and> k \<noteq> []"
    proof -
      have nk: "k \<notin> set payload_keys"
        using k by (intro wf_schema_custom [OF wf]) simp_all
      note ks = payload_keys_simps [OF nk]
      from k have d: "storyPointsId opts \<noteq> Some k" "epicNameId opts \<noteq> Some k"
        using wf_schema_distinct(2) [OF wf, of k] by auto
      from b show ?thesis
      proof (cases rule: buildFields_cases)
        case (1 s)
        then show ?thesis by (simp add: map_of_with_epic_name map_of_common_fields ks d)
      next
        case (2 s)
        then show ?thesis by (simp add: el pa map_of_common_fields ks d)
      qed
    qed
    from 1 2 show "map_of flds ''parent'' = None
        \<and> (epicLinkId opts = Some k \<and> k \<noteq> [] \<longrightarrow> map_of flds k = None)" by blast
  qed
next
  show "row ''Summary'' = Some s \<and> trim s \<noteq> [] \<longrightarrow> (\<exists>f. buildFields e opts row = Inr f)"
    using buildFields_succeeds [of row s e opts] by blast
qed

theorem epic_link_resolution_witness:
  "payload_field (buildFields team_env (opts_of sample_schema [(''E1'', sample_ref 0)])
       [''Summary'' \<mapsto> ''Fix bug'', ''Issue Type'' \<mapsto> ''Task'', ''Epic Link'' \<mapsto> '' E1 ''])
     ''parent'' = Some (JObj [(''id'', JNum (Num 0))])
   \<and> payload_field (buildFields company_env (opts_of sample_schema [(''E1'', sample_ref 0)])
       [''Summary'' \<mapsto> ''Fix bug'', ''Issue Type'' \<mapsto> ''Task'', ''Epic Link'' \<mapsto> '' E1 ''])
     ''customfield_10014'' = Some (JNum (Num 100))
   \<and> buildFields company_env (opts_of sample_schema [(''E1'', sample_ref 0)])
       [''Summary'' \<mapsto> ''Fix bug'', ''Issue Type'' \<mapsto> ''Task'', ''Epic Link'' \<mapsto> ''E9'']
     = buildFields company_env (opts_of sample_schema [(''E1'', sample_ref 0)])
       [''Summary'' \<mapsto> ''Fix bug'', ''Issue Type'' \<mapsto> ''Task'']
   \<and> payload_field (buildFields company_env (opts_of sample_schema [(''E1'', sample_ref 0)])
       [''Summary'' \<mapsto> ''Fix bug'', ''Issue Type'' \<mapsto> ''Task'', ''Epic Link'' \<mapsto> ''E9''])
     ''customfield_10014'' = None"
proof -
  let ?o = "opts_of sample_schema [(''E1'', sample_ref 0)]"
  let ?r = "[''Summary'' \<mapsto> ''Fix bug'', ''Issue Type'' \<mapsto> ''Task'', ''Epic Link'' \<mapsto> '' E1 '']"
  let ?u = "[''Summary'' \<mapsto> ''Fix bug'', ''Issue Type'' \<mapsto> ''Task'', ''Epic Link'' \<mapsto> ''E9'']"
  have ty: "toLowerCase (issueType_of ?r) \<noteq> ''epic''" "toLowerCase (issueType_of ?u) \<noteq> ''epic''"
    by (simp_all add: issueType_of_def or_else_def trim_samples toLowerCase_epic_cases)
  obtain ft where ft: "buildFields team_env ?o ?r = Inr ft"
    using buildFields_succeeds [of ?r "''Fix bug''" team_env ?o] by (auto simp: trim_samples)
  obtain fc where fc: "buildFields company_env ?o ?r = Inr fc"
    using buildFields_succeeds [of ?r "''Fix bug''" company_env ?o] by (auto simp: trim_samples)
  obtain fu where fu: "buildFields company_env ?o ?u = Inr fu"
    using buildFields_succeeds [of ?u "''Fix bug''" company_env ?o] by (auto simp: trim_samples)
  have m: "map_of (epicMap ?o) ''E1'' = Some (sample_ref 0)" "map_of (epicMap ?o) ''E9'' = None"
    "epicLinkId ?o = Some ''customfield_10014''"
    by (simp_all add: opts_of_def sample_schema_def)
  have 1: "map_of ft ''parent'' = Some (JObj [(''id'', issue_id (sample_ref 0))])"
    using epic_link_resolution [of ?r team_env ?o ft "'' E1 ''" "sample_ref 0"]
    by (simp add: ty ft m trim_samples isTeamManaged_samples)
  have 2: "map_of fc ''customfield_10014'' = Some (issue_key (sample_ref 0))"
    using epic_link_resolution [of ?r company_env ?o fc "'' E1 ''" "sample_ref 0"
        "''customfield_10014''"]
    by (simp add: ty fc m trim_samples isTeamManaged_samples)
  have 3: "buildFields company_env ?o
             [''Summary'' \<mapsto> ''Fix bug'', ''Issue Type'' \<mapsto> ''Task''] = Inr fu"
    using epic_link_resolution [of ?u company_env ?o fu "''E9''"]
    by (simp add: fu m trim_samples)
  have 4: "map_of fu ''customfield_10014'' = None"
    using epic_link_resolution [of ?u company_env ?o fu "''E9''" _ "''customfield_10014''"]
    by (simp add: fu m trim_samples wf_sample_schema)
  have v: "issue_id (sample_ref 0) = JNum (Num 0)" "issue_key (sample_ref 0) = JNum (Num 100)"
    by (simp_all add: sample_ref_def)
  show ?thesis by (simp add: ft fc fu 1 2 3 4 v payload_field_def)
qed

text \<open>
  Claim C7, as amended. Every payload has the key \<^verbatim>\<open>labels\<close>. When no custom field of the
  schema is called \<^verbatim>\<open>labels\<close>, its value is the list of the pieces of the Labels column,
  which is empty when the row has no such column. The column is cut at every run of
  commas, semicolons and spaces (U+0020), and at nothing else: the empty string has no
  piece, a non-empty string without any of the three characters is one piece, and the
  pieces of a string with one of them at some place are those of the part before it
  followed by those of the part after it.
\<close>

theorem labels_always_present:
  assumes "buildFields e opts row = Inr flds"
  shows "map_of flds ''labels'' \<noteq> None
     \<and> (wf_schema opts \<longrightarrow>
          map_of flds ''labels''
            = Some (JArr (map JStr (split_labels (or_else (row ''Labels'') [])))))
     \<and> (wf_schema opts \<and> row ''Labels'' = None \<longrightarrow> map_of flds ''labels'' = Some (JArr []))
     \<and> split_labels [] = []
     \<and> (t \<noteq> [] \<and> (\<forall>c\<in>set t. c \<notin> {CHR '','', CHR '';'', CHR '' ''}) \<longrightarrow> split_labels t = [t])
     \<and> (c \<in> {CHR '','', CHR '';'', CHR '' ''} \<longrightarrow>
          split_labels (u @ c # v) = split_labels u @ split_labels v)"
proof -
  note present = labels_key_present [OF assms]
  have labels: "map_of flds ''labels'' = Some (JArr (map JStr (labels_of row)))"
    if wf: "wf_schema opts"
  proof -
    have "''labels'' \<in> set payload_keys" by (simp add: payload_keys_def)
    note a = wf_schema_not_key [OF wf this]
    from assms show ?thesis
    proof (cases rule: buildFields_cases)
      case (1 s)
      then show ?thesis by (simp add: map_of_with_epic_name map_of_common_fields a)
    next
      case (2 s)
      then show ?thesis
        by (simp add: map_of_with_epic_link map_of_with_parent map_of_common_fields a
            split: option.split)
    qed
  qed
  have sep: "\<And>x. label_separator x \<longleftrightarrow> x \<in> {CHR '','', CHR '';'', CHR '' ''}"
    by (auto simp: label_separator_def)
  have e: "split_labels [] = []" by (simp add: split_labels_tokens tokens_Nil)
  have w: "t \<noteq> [] \<and> (\<forall>c\<in>set t. c \<notin> {CHR '','', CHR '';'', CHR '' ''}) \<longrightarrow> split_labels t = [t]"
    unfolding sep [symmetric] by (simp add: split_labels_tokens tokens_word)
  have h: "c \<in> {CHR '','', CHR '';'', CHR '' ''} \<longrightarrow>
          split_labels (u @ c # v) = split_labels u @ split_labels v"
    unfolding sep [symmetric] by (simp add: split_labels_tokens tokens_append_sep)
  have l: "wf_schema opts \<longrightarrow>
          map_of flds ''labels''
            = Some (JArr (map JStr (split_labels (or_else (row ''Labels'') []))))"
    using labels by (simp add: labels_of_def)
  have n: "wf_schema opts \<and> row ''Labels'' = None \<longrightarrow> map_of flds ''labels'' = Some (JArr [])"
    using labels e by (simp add: labels_of_def or_else_def)
  show ?thesis
    by (intro conjI) (fact present l n e w h)+
qed

theorem labels_always_present_witness:
  "payload_field (buildFields company_env (opts_of sample_schema [])
       [''Summary'' \<mapsto> ''Fix bug'', ''Labels'' \<mapsto> ''ui, api;;db  x'']) ''labels''
     = Some (JArr [JStr ''ui'', JStr ''api'', JStr ''db'', JStr ''x''])
   \<and> payload_field (buildFields company_env (opts_of sample_schema [])
       [''Summary'' \<mapsto> ''Fix bug'']) ''labels'' = Some (JArr [])"
proof -
  let ?o = "opts_of sample_schema []"
  let ?r1 = "[''Summary'' \<mapsto> ''Fix bug'', ''Labels'' \<mapsto> ''ui, api;;db  x'']"
  let ?r2 = "[''Summary'' \<mapsto> ''Fix bug'']"
  obtain f1 where f1: "buildFields company_env ?o ?r1 = Inr f1"
    using buildFields_succeeds [of ?r1 "''Fix bug''" company_env ?o] by (auto simp: trim_Fix_bug)
  obtain f2 where f2: "buildFields company_env ?o ?r2 = Inr f2"
    using buildFields_succeeds [of ?r2 "''Fix bug''" company_env ?o] by (auto simp: trim_Fix_bug)
  have s: "split_labels ''ui, api;;db  x'' = [''ui'', ''api'', ''db'', ''x'']"
    "split_labels [] = []"
    by (simp_all add: split_labels_def split_runs.simps label_separator_def)
  from labels_always_present [OF f1, THEN conjunct2, THEN conjunct1, rule_format,
      OF wf_sample_schema]
    labels_always_present [OF f2, THEN conjunct2, THEN conjunct1, rule_format,
      OF wf_sample_schema]
  show ?thesis by (simp add: f1 f2 payload_field_def or_else_def s)
qed

text \<open>
  The claim as stated has the column cut at any white space. A tab is white space, and it
  does not cut: the Labels value \<^verbatim>\<open>a<TAB>b\<close> is the single label \<^verbatim>\<open>a<TAB>b\<close>, where the
  claim's rule gives the two labels \<^verbatim>\<open>a\<close> and \<^verbatim>\<open>b\<close>.
\<close>

theorem labels_whitespace_counterexample:
  "payload_field (buildFields company_env (opts_of sample_schema [])
       [''Summary'' \<mapsto> ''Fix bug'', ''Labels'' \<mapsto> [CHR ''a'', CHR 0x09, CHR ''b'']]) ''labels''
     = Some (JArr [JStr [CHR ''a'', CHR 0x09, CHR ''b'']])
   \<and> spec_split_labels [CHR ''a'', CHR 0x09, CHR ''b''] = [''a'', ''b'']"
  by (simp add: string_eval mapper_eval adf_eval sample_eval spec_split_labels_def
      spec_label_separator_def)



text \<open>
  Claim C10. In team-managed mode, for a sub-task whose Parent Id and Epic Link are both
  in the identifier map, the payload has exactly one \<^verbatim>\<open>parent\<close> and it carries the \<^verbatim>\<open>id\<close> of
  the Epic Link target: the assignment made for the Epic Link replaces the one made for the
  Parent Id, which is the one the payload has when the row has no Epic Link.
\<close>

theorem subtask_epic_link_overrides_parent:
  assumes "isTeamManaged e" "toLowerCase (issueType_of row) = ''sub-task''"
    "row ''Parent Id'' = Some p" "trim p \<noteq> []" "map_of (epicMap opts) (trim p) = Some parent"
    "row ''Epic Link'' = Some l" "trim l \<noteq> []" "map_of (epicMap opts) (trim l) = Some epic"
    "buildFields e opts row = Inr flds"
  shows "map_of flds ''parent'' = Some (JObj [(''id'', issue_id epic)])
     \<and> length (filter (\<lambda>kv. fst kv = ''parent'') flds) = 1
     \<and> payload_field (buildFields e opts (row(''Epic Link'' := None))) ''parent''
         = Some (JObj [(''id'', issue_id parent)])"
proof -
  have ne: "toLowerCase (issueType_of row) \<noteq> ''epic''" using assms(2) by simp
  from assms(9) obtain s where s: "row ''Summary'' = Some s" "trim s \<noteq> []"
    using buildFields_Inr_summary by blast
  have flds: "flds = with_epic_link e opts row
              (with_parent opts row (issueType_of row) (common_fields e opts row (trim s)))"
    using buildFields_non_epic [of row s e opts] s ne assms(9) by simp
  have er: "epic_ref opts row = Some epic" using assms(6-8) by (simp add: epic_ref_def)
  have pr: "parent_ref opts row (issueType_of row) = Some parent"
    using assms(2-5) by (simp add: parent_ref_def)
  have 1: "map_of flds ''parent'' = Some (JObj [(''id'', issue_id epic)])"
    by (simp add: flds map_of_with_epic_link er assms(1))
  have 2: "length (filter (\<lambda>kv. fst kv = ''parent'') flds) = 1"
    using buildFields_distinct_keys [OF assms(9)] 1 by (rule one_entry_of_key)
  let ?row = "row(''Epic Link'' := None)"
  have t: "issueType_of ?row = issueType_of row" by (simp add: stages_other_column)
  have b: "buildFields e opts ?row = Inr (with_epic_link e opts ?row
              (with_parent opts ?row (issueType_of ?row) (common_fields e opts ?row (trim s))))"
    using buildFields_non_epic [of ?row s e opts] s ne by (simp add: t)
  have pr': "parent_ref opts ?row (issueType_of row) = Some parent"
    using pr by (simp add: parent_ref_def)
  have 3: "payload_field (buildFields e opts ?row) ''parent''
         = Some (JObj [(''id'', issue_id parent)])"
    by (simp add: b t payload_field_def with_epic_link_absent map_of_with_parent pr')
  from 1 2 3 show ?thesis by blast
qed

theorem subtask_epic_link_overrides_parent_witness:
  "payload_field
     (buildFields team_env (opts_of sample_schema [(''E1'', sample_ref 0), (''S1'', sample_ref 2)])
        [''Summary'' \<mapsto> ''Fix bug'', ''Issue Type'' \<mapsto> ''Sub-task'', ''Parent Id'' \<mapsto> ''S1'',
         ''Epic Link'' \<mapsto> ''E1''])
     ''parent'' = Some (JObj [(''id'', JNum (Num 0))])
   \<and> payload_field
     (buildFields team_env (opts_of sample_schema [(''E1'', sample_ref 0), (''S1'', sample_ref 2)])
        [''Summary'' \<mapsto> ''Fix bug'', ''Issue Type'' \<mapsto> ''Sub-task'', ''Parent Id'' \<mapsto> ''S1''])
     ''parent'' = Some (JObj [(''id'', JNum (Num 2))])"
proof -
  let ?o = "opts_of sample_schema [(''E1'', sample_ref 0), (''S1'', sample_ref 2)]"
  let ?r = "[''Summary'' \<mapsto> ''Fix bug'', ''Issue Type'' \<mapsto> ''Sub-task'', ''Parent Id'' \<mapsto> ''S1'',
         ''Epic Link'' \<mapsto> ''E1'']"
  have ty: "toLowerCase (issueType_of ?r) = ''sub-task''"
    by (simp add: issueType_of_def or_else_def trim_samples toLowerCase_epic_cases)
  obtain f where f: "buildFields team_env ?o ?r = Inr f"
    using buildFields_succeeds [of ?r "''Fix bug''" team_env ?o] by (auto simp: trim_samples)
  have m: "map_of (epicMap ?o) ''E1'' = Some (sample_ref 0)"
    "map_of (epicMap ?o) ''S1'' = Some (sample_ref 2)"
    by (simp_all add: opts_of_def)
  have r: "?r(''Epic Link'' := None) =
      [''Summary'' \<mapsto> ''Fix bug'', ''Issue Type'' \<mapsto> ''Sub-task'', ''Parent Id'' \<mapsto> ''S1'']"
    by simp
  have "map_of f ''parent'' = Some (JObj [(''id'', issue_id (sample_ref 0))])
     \<and> payload_field (buildFields team_env ?o (?r(''Epic Link'' := None))) ''parent''
         = Some (JObj [(''id'', issue_id (sample_ref 2))])"
    using subtask_epic_link_overrides_parent [of team_env ?r "''S1''" ?o "sample_ref 2" "''E1''"
      "sample_ref 0" f]
    by (simp add: isTeamManaged_samples ty trim_samples m f)
  moreover have "issue_id (sample_ref 0) = JNum (Num 0)" "issue_id (sample_ref 2) = JNum (Num 2)"
    by (simp_all add: sample_ref_def)
  ultimately show ?thesis
    unfolding r by (simp add: f payload_field_def)
qed

section \<open>Properties of the Resilient Request Executor\<close>








section \<open>Properties of the ADF builders\<close>

lemma trim_eq_Nil: "trim s = [] \<longleftrightarrow> (\<forall>c\<in>set s. is_white_space c)"
proof
  assume "trim s = []"
  then have "dropWhile is_white_space (rev (dropWhile is_white_space s)) = []"
    by (simp add: trim_def)
  then have "\<forall>c\<in>set (dropWhile is_white_space s). is_white_space c"
    by (simp add: dropWhile_eq_Nil_conv)
  then have "dropWhile is_white_space s = []"
    by (metis hd_dropWhile list.set_sel(1))
  then show "\<forall>c\<in>set s. is_white_space c" by (simp add: dropWhile_eq_Nil_conv)
next
  assume "\<forall>c\<in>set s. is_white_space c"
  then have "dropWhile is_white_space s = []" by (simp add: dropWhile_eq_Nil_conv)
  then show "trim s = []" unfolding trim_def by (simp only: rev.simps dropWhile.simps)
qed

lemma trim_ends:
  assumes "trim s \<noteq> []"
  shows "\<not> is_white_space (hd (trim s))" "\<not> is_white_space (last (trim s))"
proof -
  let ?u = "dropWhile is_white_space s"
  let ?v = "dropWhile is_white_space (rev ?u)"
  have v: "?v \<noteq> []" using assms by (simp add: trim_def)
  then have "\<not> is_white_space (hd ?v)" by (rule hd_dropWhile)
  then show "\<not> is_white_space (last (trim s))"
    using v by (simp add: trim_def last_rev)
  have u: "?u \<noteq> []"
  proof
    assume "?u = []"
    then have "?v = []" by (simp only: rev.simps dropWhile.simps)
    with v show False by simp
  qed
  then have hu: "\<not> is_white_space (hd ?u)" by (rule hd_dropWhile)
  have "rev ?u = takeWhile is_white_space (rev ?u) @ ?v" by simp
  then have "?u = rev ?v @ rev (takeWhile is_white_space (rev ?u))"
    by (metis rev_append rev_rev_ident)
  with v have "hd ?u = hd (rev ?v)" by (metis hd_append2 rev_is_Nil_conv)
  with hu show "\<not> is_white_space (hd (trim s))" by (simp add: trim_def)
qed

lemma trim_id:
  assumes "s = [] \<or> (\<not> is_white_space (hd s) \<and> \<not> is_white_space (last s))"
  shows "trim s = s"
proof (cases "s = []")
  case True
  then show ?thesis by (simp add: trim_def)
next
  case False
  with assms have h: "\<not> is_white_space (hd s)" and l: "\<not> is_white_space (last s)" by simp_all
  from False h have a: "dropWhile is_white_space s = s" by (cases s) simp_all
  from False l have "dropWhile is_white_space (rev s) = rev s"
    by (cases "rev s") (simp_all add: last_rev [symmetric] hd_rev)
  with a show ?thesis by (simp add: trim_def)
qed

lemma trim_trim: "trim (trim s) = trim s"
  using trim_ends [of s] by (intro trim_id) blast

lemma split_acc_join:
  "concat (map (\<lambda>l. l @ [d]) (split_acc d acc s)) = rev acc @ s @ [d]"
  by (induction s arbitrary: acc) simp_all

lemma split_acc_no_sep:
  "d \<notin> set acc \<Longrightarrow> l \<in> set (split_acc d acc s) \<Longrightarrow> d \<notin> set l"
proof (induction s arbitrary: acc)
  case Nil
  then show ?case by simp
next
  case (Cons a s)
  show ?case
  proof (cases "a = d")
    case True
    with Cons.prems have "l = rev acc \<or> l \<in> set (split_acc d [] s)" by simp
    then show ?thesis
    proof
      assume "l = rev acc"
      with Cons.prems(1) show ?thesis by simp
    next
      assume "l \<in> set (split_acc d [] s)"
      with Cons.IH [of "[]"] show ?thesis by simp
    qed
  next
    case False
    with Cons.prems have "l \<in> set (split_acc d (a # acc) s)" by simp
    with Cons.IH [of "a # acc"] False Cons.prems(1) show ?thesis by simp
  qed
qed

lemma split_acc_not_Nil: "split_acc d acc s \<noteq> []"
  by (induction s arbitrary: acc) simp_all

lemma split_char_lines:
  "split_char d s \<noteq> []"
  "concat (map (\<lambda>l. l @ [d]) (split_char d s)) = s @ [d]"
  "\<forall>l\<in>set (split_char d s). d \<notin> set l"
  using split_acc_no_sep [of d "[]" _ s]
  by (auto simp add: split_char_def split_acc_not_Nil split_acc_join)

lemma replace_crlf_no_CR: "CHR 0x0D \<notin> set s \<Longrightarrow> replace_crlf s = s"
  by (induction s rule: replace_crlf.induct) auto

lemma replace_crlf_append:
  "replace_crlf (a @ CHR 0x0D # CHR 0x0A # b) = replace_crlf a @ CHR 0x0A # replace_crlf b"
proof (induction a rule: replace_crlf.induct)
  case (1 x y cs)
  then show ?case by (cases cs) auto
qed simp_all

lemma matches_after_iff:
  "matches_after scheme t \<longleftrightarrow>
     (\<exists>p rest. t = p @ rest \<and> toLowerCase p = scheme \<and> rest \<noteq> []
        \<and> (\<forall>c\<in>set rest. \<not> is_white_space c))"
proof
  assume m: "matches_after scheme t"
  let ?p = "take (length scheme) t" and ?r = "drop (length scheme) t"
  from m have "t = ?p @ ?r \<and> toLowerCase ?p = scheme \<and> ?r \<noteq> []
        \<and> (\<forall>c\<in>set ?r. \<not> is_white_space c)"
    by (simp add: matches_after_def list_all_iff)
  then show "\<exists>p rest. t = p @ rest \<and> toLowerCase p = scheme \<and> rest \<noteq> []
        \<and> (\<forall>c\<in>set rest. \<not> is_white_space c)" by blast
next
  assume "\<exists>p rest. t = p @ rest \<and> toLowerCase p = scheme \<and> rest \<noteq> []
        \<and> (\<forall>c\<in>set rest. \<not> is_white_space c)"
  then obtain p rest where h: "t = p @ rest" "toLowerCase p = scheme" "rest \<noteq> []"
    "\<forall>c\<in>set rest. \<not> is_white_space c" by blast
  from h(2) have "length scheme = length p" by (auto simp: toLowerCase_def)
  with h show "matches_after scheme t" by (simp add: matches_after_def list_all_iff)
qed

lemma isLikelyUrl_iff:
  "isLikelyUrl s \<longleftrightarrow>
     (\<exists>p rest. trim s = p @ rest \<and> toLowerCase p \<in> {''http://'', ''https://''} \<and> rest \<noteq> []
        \<and> (\<forall>c\<in>set rest. \<not> is_white_space c))"
  unfolding isLikelyUrl_def Let_def matches_after_iff by blast

text \<open>
  Claim C6, as amended. \<^verbatim>\<open>toADF\<close> returns \<^verbatim>\<open>null\<close> for an absent description and for one made
  of white space only (the empty one included), and for no other; otherwise it returns the
  document with \<^verbatim>\<open>version\<close> 1 and \<^verbatim>\<open>type\<close> \<^verbatim>\<open>doc\<close> whose content has one block for each line of
  the description, after every CR LF was replaced by LF and the text was cut at every LF.
  There is always at least one line, and the lines joined by LF give the text back. The
  block of a line that trims to nothing is an empty paragraph. The block of a line whose
  trimmed content is \<^verbatim>\<open>http://\<close> or \<^verbatim>\<open>https://\<close> in any letter case followed by at least one
  character, with no white space after the scheme, is a paragraph with one link node whose
  text and target are the trimmed line. The block of any other line is a paragraph with one
  text node holding the line as it is, untrimmed.
\<close>

theorem toADF_document:
  "toADF None = None
   \<and> (toADF (Some s) = None \<longleftrightarrow> (\<forall>c\<in>set s. is_white_space c))
   \<and> (toADF (Some s) \<noteq> None \<longrightarrow>
        toADF (Some s) =
          Some (JObj [(''version'', JNum (Num 1)), (''type'', JStr ''doc''),
                      (''content'',
                       JArr (map adfParagraph (split_char (CHR 0x0A) (replace_crlf s))))]))
   \<and> replace_crlf (a @ CHR 0x0D # CHR 0x0A # b) = replace_crlf a @ CHR 0x0A # replace_crlf b
   \<and> (CHR 0x0D \<notin> set a \<longrightarrow> replace_crlf a = a)
   \<and> split_char (CHR 0x0A) a \<noteq> []
   \<and> concat (map (\<lambda>l. l @ [CHR 0x0A]) (split_char (CHR 0x0A) a)) = a @ [CHR 0x0A]
   \<and> (\<forall>l\<in>set (split_char (CHR 0x0A) a). CHR 0x0A \<notin> set l)
   \<and> (trim line = [] \<longrightarrow> adfParagraph line = JObj [(''type'', JStr ''paragraph'')])
   \<and> (isLikelyUrl line \<longrightarrow>
        adfParagraph line =
          JObj [(''type'', JStr ''paragraph''),
                (''content'',
                 JArr [JObj [(''type'', JStr ''text''), (''text'', JStr (trim line)),
                             (''marks'',
                              JArr [JObj [(''type'', JStr ''link''),
                                          (''attrs'', JObj [(''href'', JStr (trim line))])]])]])])
   \<and> (trim line \<noteq> [] \<and> \<not> isLikelyUrl line \<longrightarrow>
        adfParagraph line =
          JObj [(''type'', JStr ''paragraph''),
                (''content'', JArr [JObj [(''type'', JStr ''text''), (''text'', JStr line)]])])
   \<and> (isLikelyUrl line \<longleftrightarrow>
        (\<exists>p rest. trim line = p @ rest \<and> toLowerCase p \<in> {''http://'', ''https://''}
           \<and> rest \<noteq> [] \<and> (\<forall>c\<in>set rest. \<not> is_white_space c)))"
proof -
  have 1: "toADF None = None" by (simp add: toADF_def)
  have e: "s = [] \<or> trim s = [] \<longleftrightarrow> trim s = []" by (auto simp: trim_def)
  have 2: "toADF (Some s) = None \<longleftrightarrow> (\<forall>c\<in>set s. is_white_space c)"
    unfolding trim_eq_Nil [symmetric] by (simp add: toADF_def e Let_def)
  have 3: "toADF (Some s) \<noteq> None \<longrightarrow>
        toADF (Some s) =
          Some (JObj [(''version'', JNum (Num 1)), (''type'', JStr ''doc''),
                      (''content'',
                       JArr (map adfParagraph (split_char (CHR 0x0A) (replace_crlf s))))])"
    by (simp add: toADF_def Let_def)
  have u: "isLikelyUrl (trim line) = isLikelyUrl line"
    by (simp add: isLikelyUrl_def trim_trim)
  have ne: "isLikelyUrl line \<Longrightarrow> trim line \<noteq> []"
    by (auto simp: isLikelyUrl_iff)
  have 4: "trim line = [] \<longrightarrow> adfParagraph line = JObj [(''type'', JStr ''paragraph'')]"
    by (simp add: adfParagraph_def)
  have 5: "isLikelyUrl line \<longrightarrow>
        adfParagraph line =
          JObj [(''type'', JStr ''paragraph''),
                (''content'',
                 JArr [JObj [(''type'', JStr ''text''), (''text'', JStr (trim line)),
                             (''marks'',
                              JArr [JObj [(''type'', JStr ''link''),
                                          (''attrs'', JObj [(''href'', JStr (trim line))])]])]])]"
    using ne by (simp add: adfParagraph_def Let_def u adfLinkNode_def or_else_def)
  have 6: "trim line \<noteq> [] \<and> \<not> isLikelyUrl line \<longrightarrow>
        adfParagraph line =
          JObj [(''type'', JStr ''paragraph''),
                (''content'', JArr [JObj [(''type'', JStr ''text''), (''text'', JStr line)]])]"
    by (simp add: adfParagraph_def Let_def u adfTextNode_def)
  note 7 = isLikelyUrl_iff [of line]
  note l = split_char_lines [of "CHR 0x0A" a]
  note c = replace_crlf_append [of a b]
  have n: "CHR 0x0D \<notin> set a \<longrightarrow> replace_crlf a = a" by (simp add: replace_crlf_no_CR)
  show ?thesis
    by (intro conjI) (fact 1 2 3 c n l 4 5 6 7)+
qed

theorem toADF_document_witness:
  "toADF (Some [CHR '' '', CHR 0x0A, CHR 0x09]) = None
   \<and> adfParagraph ''  '' = JObj [(''type'', JStr ''paragraph'')]
   \<and> adfParagraph '' https://jira.example/browse/X-1 '' =
       JObj [(''type'', JStr ''paragraph''),
             (''content'',
              JArr [JObj [(''type'', JStr ''text''), (''text'', JStr ''https://jira.example/browse/X-1''),
                          (''marks'',
                           JArr [JObj [(''type'', JStr ''link''),
                                       (''attrs'',
                                        JObj [(''href'', JStr ''https://jira.example/browse/X-1'')])]])]])]
   \<and> adfParagraph '' see https://jira.example'' =
       JObj [(''type'', JStr ''paragraph''),
             (''content'',
              JArr [JObj [(''type'', JStr ''text''), (''text'', JStr '' see https://jira.example'')]])]"
proof -
  have w: "\<forall>c\<in>set [CHR '' '', CHR 0x0A, CHR 0x09]. is_white_space c"
    by (simp add: is_white_space_def)
  have t: "trim ''  '' = []"
    "trim '' https://jira.example/browse/X-1 '' = ''https://jira.example/browse/X-1''"
    "trim '' see https://jira.example'' \<noteq> []"
    by (simp_all add: trim_def is_white_space_def)
  have u: "isLikelyUrl '' https://jira.example/browse/X-1 ''"
    "\<not> isLikelyUrl '' see https://jira.example''"
    by (simp_all add: string_eval adf_eval)
  have 1: "toADF (Some [CHR '' '', CHR 0x0A, CHR 0x09]) = None"
    using toADF_document [of "[CHR '' '', CHR 0x0A, CHR 0x09]"] w by blast
  have 2: "adfParagraph ''  '' = JObj [(''type'', JStr ''paragraph'')]"
    using toADF_document [of _ _ _ "''  ''"] t(1) by blast
  have 3: "adfParagraph '' https://jira.example/browse/X-1 '' =
       JObj [(''type'', JStr ''paragraph''),
             (''content'',
              JArr [JObj [(''type'', JStr ''text''),
                          (''text'', JStr (trim '' https://jira.example/browse/X-1 '')),
                          (''marks'',
                           JArr [JObj [(''type'', JStr ''link''),
                                       (''attrs'',
                                        JObj [(''href'',
                                          JStr (trim '' https://jira.example/browse/X-1 ''))])]])]])]"
    using toADF_document [of _ _ _ "'' https://jira.example/browse/X-1 ''"] u(1) by blast
  have 4: "adfParagraph '' see https://jira.example'' =
       JObj [(''type'', JStr ''paragraph''),
             (''content'',
              JArr [JObj [(''type'', JStr ''text''), (''text'', JStr '' see https://jira.example'')]])]"
    using toADF_document [of _ _ _ "'' see https://jira.example''"] t(3) u(2) by blast
  from 1 2 3 4 show ?thesis by (simp only: t(2) simp_thms)
qed

text \<open>
  The claim as stated makes a link of every line that starts with \<^verbatim>\<open>http://\<close> or \<^verbatim>\<open>https://\<close>
  and has no white space, and plain text of every other line. The line \<^verbatim>\<open>http://\<close> is of the
  first kind and gets a text node, since the pattern wants a character after the scheme;
  the line \<^verbatim>\<open>HTTP://jira\<close> does not start with either prefix as written and gets a link node,
  since the pattern ignores case.
\<close>

theorem toADF_bare_scheme_counterexample:
  "spec_bare_url (trim ''http://'')
   \<and> toADF (Some ''http://'') =
       Some (JObj [(''version'', JNum (Num 1)), (''type'', JStr ''doc''),
                   (''content'',
                    JArr [JObj [(''type'', JStr ''paragraph''),
                                (''content'',
                                 JArr [JObj [(''type'', JStr ''text''),
                                             (''text'', JStr ''http://'')]])]])])
   \<and> \<not> spec_bare_url (trim ''HTTP://jira'')
   \<and> toADF (Some ''HTTP://jira'') =
       Some (JObj [(''version'', JNum (Num 1)), (''type'', JStr ''doc''),
                   (''content'',
                    JArr [JObj [(''type'', JStr ''paragraph''),
                                (''content'',
                                 JArr [JObj [(''type'', JStr ''text''),
                                             (''text'', JStr ''HTTP://jira''),
                                             (''marks'',
                                              JArr [JObj [(''type'', JStr ''link''),
                                                          (''attrs'',
                                                           JObj [(''href'',
                                                                  JStr ''HTTP://jira'')])]])]])]])])"
  by (simp add: spec_bare_url_def string_eval adf_eval Let_def)

section \<open>Properties of the Import Orchestrator\<close>


lemma createRow_Inr:
  assumes "createRow e sch api row st = Inr st'"
  shows "\<exists>c. r_created st' = r_created st @ [c] \<and> c_row c = row
     \<and> buildFields e (opts_of sch (r_epicMap st)) row = Inr (c_fields c)
     \<and> localId row = Inr (c_localId c)
     \<and> get_prop (c_resp c) ''id'' = Inr (issue_id (c_ref c))
     \<and> get_prop (c_resp c) ''key'' = Inr (issue_key (c_ref c))
     \<and> r_epicMap st' = AList.update (c_localId c) (c_ref c) (r_epicMap st)"
proof -
  from assms obtain flds where f: "buildFields e (opts_of sch (r_epicMap st)) row = Inr flds"
    by (cases "buildFields e (opts_of sch (r_epicMap st)) row") (simp_all add: createRow_def)
  from assms f obtain resp n where c: "createIssue api (r_calls st) flds = (Inr resp, n)"
    by (cases "createIssue api (r_calls st) flds"; cases "fst (createIssue api (r_calls st) flds)")
      (simp_all add: createRow_def)
  from assms f c obtain k where k: "localId row = Inr k"
    by (cases "localId row") (simp_all add: createRow_def)
  from assms f c k obtain i where i: "get_prop resp ''id'' = Inr i"
    by (cases "get_prop resp ''id''") (simp_all add: createRow_def)
  from assms f c k i obtain ky where ky: "get_prop resp ''key'' = Inr ky"
    by (cases "get_prop resp ''key''") (simp_all add: createRow_def)
  let ?ref = "\<lparr>issue_id = i, issue_key = ky\<rparr>"
  let ?c = "\<lparr>c_row = row, c_fields = flds, c_resp = resp, c_localId = k, c_ref = ?ref\<rparr>"
  from assms f c k i ky
  have st': "st' = \<lparr>r_epicMap = AList.update k ?ref (r_epicMap st), r_calls = n,
                    r_created = r_created st @ [?c]\<rparr>"
    by (simp add: createRow_def Let_def)
  have "r_created st' = r_created st @ [?c] \<and> c_row ?c = row
     \<and> buildFields e (opts_of sch (r_epicMap st)) row = Inr (c_fields ?c)
     \<and> localId row = Inr (c_localId ?c)
     \<and> get_prop (c_resp ?c) ''id'' = Inr (issue_id (c_ref ?c))
     \<and> get_prop (c_resp ?c) ''key'' = Inr (issue_key (c_ref ?c))
     \<and> r_epicMap st' = AList.update (c_localId ?c) (c_ref ?c) (r_epicMap st)"
    by (simp add: st' f k i ky)
  then show ?thesis by blast
qed

lemma map_after_simps:
  "map_after [] m = m"
  "map_after (c # cs) m = map_after cs (AList.update (c_localId c) (c_ref c) m)"
  "map_after (xs @ ys) m = map_after ys (map_after xs m)"
  by (simp_all add: map_after_def)

lemma built_in_order_append:
  "built_in_order e sch m (xs @ ys) \<longleftrightarrow>
     built_in_order e sch m xs \<and> built_in_order e sch (map_after xs m) ys"
  by (induction xs arbitrary: m) (auto simp: map_after_simps)

lemma createRows_trace:
  assumes "createRows sel e sch api rows st = Inr st'"
  shows "\<exists>new. r_created st' = r_created st @ new \<and> map c_row new = filter sel rows
     \<and> built_in_order e sch (r_epicMap st) new
     \<and> r_epicMap st' = map_after new (r_epicMap st)"
  using assms
proof (induction rows arbitrary: st)
  case Nil
  then have "r_created st' = r_created st @ [] \<and> map c_row [] = filter sel []
     \<and> built_in_order e sch (r_epicMap st) [] \<and> r_epicMap st' = map_after [] (r_epicMap st)"
    by (simp add: map_after_simps)
  then show ?case by blast
next
  case (Cons row rows)
  show ?case
  proof (cases "sel row")
    case False
    with Cons.prems have "createRows sel e sch api rows st = Inr st'" by simp
    from Cons.IH [OF this] False show ?thesis by simp
  next
    case True
    with Cons.prems obtain st1 where 1: "createRow e sch api row st = Inr st1"
      and 2: "createRows sel e sch api rows st1 = Inr st'"
      by (cases "createRow e sch api row st") simp_all
    from createRow_Inr [OF 1] obtain c where c: "r_created st1 = r_created st @ [c]"
      "c_row c = row" "buildFields e (opts_of sch (r_epicMap st)) row = Inr (c_fields c)"
      "localId row = Inr (c_localId c)"
      "get_prop (c_resp c) ''id'' = Inr (issue_id (c_ref c))"
      "get_prop (c_resp c) ''key'' = Inr (issue_key (c_ref c))"
      "r_epicMap st1 = AList.update (c_localId c) (c_ref c) (r_epicMap st)"
      by blast
    from Cons.IH [OF 2] obtain new where new: "r_created st' = r_created st1 @ new"
      "map c_row new = filter sel rows" "built_in_order e sch (r_epicMap st1) new"
      "r_epicMap st' = map_after new (r_epicMap st1)"
      by blast
    have "r_created st' = r_created st @ (c # new) \<and> map c_row (c # new) = filter sel (row # rows)
     \<and> built_in_order e sch (r_epicMap st) (c # new)
     \<and> r_epicMap st' = map_after (c # new) (r_epicMap st)"
      using True c new by (simp add: map_after_simps)
    then show ?thesis by blast
  qed
qed

lemma main_trace:
  assumes "main e sch api n0 rows = Inr (report, st)"
  shows "\<exists>new1 new2. r_created st = new1 @ new2
     \<and> map c_row new1 = filter isEpicRow rows
     \<and> map c_row new2 = filter (\<lambda>r. \<not> isEpicRow r) rows
     \<and> built_in_order e sch [] (new1 @ new2)
     \<and> r_epicMap st = map_after (new1 @ new2) []
     \<and> report = import_report (r_epicMap st)"
proof -
  let ?st0 = "\<lparr>r_epicMap = [], r_calls = n0, r_created = []\<rparr>"
  from assms obtain st1 where 1: "createRows isEpicRow e sch api rows ?st0 = Inr st1"
    by (cases "createRows isEpicRow e sch api rows ?st0") (simp_all add: main_def)
  from assms 1 have 2: "createRows (\<lambda>r. \<not> isEpicRow r) e sch api rows st1 = Inr st"
    and rep: "report = import_report (r_epicMap st)"
    by (cases "createRows (\<lambda>r. \<not> isEpicRow r) e sch api rows st1"; simp add: main_def)+
  from createRows_trace [OF 1] obtain new1 where n1: "r_created st1 = new1"
    "map c_row new1 = filter isEpicRow rows" "built_in_order e sch [] new1"
    "r_epicMap st1 = map_after new1 []"
    by auto
  from createRows_trace [OF 2] obtain new2 where n2: "r_created st = r_created st1 @ new2"
    "map c_row new2 = filter (\<lambda>r. \<not> isEpicRow r) rows"
    "built_in_order e sch (r_epicMap st1) new2"
    "r_epicMap st = map_after new2 (r_epicMap st1)"
    by blast
  have "r_created st = new1 @ new2
     \<and> map c_row new1 = filter isEpicRow rows
     \<and> map c_row new2 = filter (\<lambda>r. \<not> isEpicRow r) rows
     \<and> built_in_order e sch [] (new1 @ new2)
     \<and> r_epicMap st = map_after (new1 @ new2) []
     \<and> report = import_report (r_epicMap st)"
    using n1 n2 rep by (simp add: built_in_order_append map_after_simps)
  then show ?thesis by blast
qed

lemma map_of_map_after:
  "map_of (map_after cs m) = map_of m ++ map_of (rev (map recorded cs))"
proof (induction cs arbitrary: m)
  case Nil
  then show ?case by (simp add: map_after_simps)
next
  case (Cons c cs)
  have "map_of (map_after (c # cs) m)
      = map_of (AList.update (c_localId c) (c_ref c) m) ++ map_of (rev (map recorded cs))"
    by (simp add: map_after_simps Cons.IH)
  also have "\<dots> = (map_of m ++ [c_localId c \<mapsto> c_ref c]) ++ map_of (rev (map recorded cs))"
    by (simp add: update_conv')
  also have "\<dots> = map_of m ++ map_of (rev (map recorded (c # cs)))"
    by (simp add: recorded_def map_add_assoc)
  finally show ?case .
qed

lemma map_after_last_write:
  assumes "\<forall>d\<in>set post. c_localId d \<noteq> c_localId c"
  shows "map_of (map_after (pre @ c # post) m) (c_localId c) = Some (c_ref c)"
proof -
  have "map_of (rev (map recorded post)) (c_localId c) = None"
    using assms by (auto simp: map_of_eq_None_iff recorded_def image_iff)
  then show ?thesis
    by (simp add: map_of_map_after map_add_def recorded_def)
qed

lemma keys_map_after:
  "fst ` set (map_after cs m) = fst ` set m \<union> c_localId ` set cs"
  by (induction cs arbitrary: m) (auto simp: map_after_simps dom_update)

lemma distinct_map_after:
  "distinct (map fst m) \<Longrightarrow> distinct (map fst (map_after cs m))"
  by (induction cs arbitrary: m) (simp_all add: map_after_simps distinct_update)

lemma built_in_order_at:
  assumes "built_in_order e sch m (pre @ c # post)"
  shows "buildFields e (opts_of sch (map_after pre m)) (c_row c) = Inr (c_fields c)"
    and "localId (c_row c) = Inr (c_localId c)"
    and "get_prop (c_resp c) ''id'' = Inr (issue_id (c_ref c))"
    and "get_prop (c_resp c) ''key'' = Inr (issue_key (c_ref c))"
  using assms by (simp_all add: built_in_order_append)

lemma localId_Inr:
  "localId row = Inr k \<longleftrightarrow>
     (\<exists>v. (if truthy (row ''Issue Id'') then row ''Issue Id'' else row ''Summary'') = Some v
        \<and> k = trim v)"
  by (auto simp: localId_def split: option.splits)

lemmas orchestrator_eval = main_def createRow_def createIssue_def requestWithRetry_def
  requestWithRetry_loop.simps max_attempts_def get_prop_def localId_def isEpicRow_def
  import_report_def payloads_def Let_def


lemmas run_eval = orchestrator_eval mapper_eval string_eval adf_eval sample_eval number_eval

lemma singleton_alist:
  assumes "distinct (map fst m)" "fst ` set m = {k}" "map_of m k = Some v"
  shows "m = [(k, v)]"
proof (cases m)
  case Nil
  with assms(2) show ?thesis by simp
next
  case (Cons a m')
  with assms(2) have a: "fst a = k" by auto
  have "m' = []"
  proof (rule ccontr)
    assume "m' \<noteq> []"
    then obtain b where b: "b \<in> set m'" by (cases m') auto
    with assms(2) Cons have "fst b = k" by auto
    with b have "k \<in> fst ` set m'" by force
    with assms(1) Cons a show False by simp
  qed
  with Cons a assms(3) show ?thesis by (cases a) simp
qed

text \<open>
  Claim C9. In a run that ends well, the issues created are those of the epic rows in
  source order followed by those of the other rows in source order. Each is recorded
  under the trimmed Issue Id of its row when that is not empty and under the trimmed
  Summary otherwise, with the \<^verbatim>\<open>id\<close> and \<^verbatim>\<open>key\<close> of the response. The final identifier map
  gives, for each local id, the entry of the last issue created under it: a later issue
  with the same local id replaces the earlier entry. The keys of the map are the local ids
  of the issues created, each once. Recording an issue changes the map at the local id of
  its row only and removes no key. The report is the list of the entries of the final map.
\<close>

theorem identifier_map_last_write_wins:
  assumes "main e sch api n0 rows = Inr (report, st)"
  shows "map c_row (r_created st) = filter isEpicRow rows @ filter (\<lambda>r. \<not> isEpicRow r) rows
     \<and> (\<forall>c\<in>set (r_created st).
          (\<exists>v. (if truthy (c_row c ''Issue Id'') then c_row c ''Issue Id''
                 else c_row c ''Summary'') = Some v \<and> c_localId c = trim v)
          \<and> get_prop (c_resp c) ''id'' = Inr (issue_id (c_ref c))
          \<and> get_prop (c_resp c) ''key'' = Inr (issue_key (c_ref c)))
     \<and> map_of (r_epicMap st) = map_of (rev (map recorded (r_created st)))
     \<and> (\<forall>pre c post. r_created st = pre @ c # post
            \<and> (\<forall>d\<in>set post. c_localId d \<noteq> c_localId c) \<longrightarrow>
          map_of (r_epicMap st) (c_localId c) = Some (c_ref c))
     \<and> fst ` set (r_epicMap st) = c_localId ` set (r_created st)
     \<and> distinct (map fst (r_epicMap st))
     \<and> report =
         JArr (map (\<lambda>(k, ref). JArr [JStr k, JObj [(''id'', issue_id ref),
                                                    (''key'', issue_key ref)]])
                 (r_epicMap st))
     \<and> (\<forall>row st0 st1. createRow e sch api row st0 = Inr st1 \<longrightarrow>
          (\<exists>k ref. localId row = Inr k
             \<and> map_of (r_epicMap st1) = (map_of (r_epicMap st0))(k \<mapsto> ref))
          \<and> fst ` set (r_epicMap st0) \<subseteq> fst ` set (r_epicMap st1))"
proof -
  from main_trace [OF assms] obtain new1 new2 where t: "r_created st = new1 @ new2"
    "map c_row new1 = filter isEpicRow rows"
    "map c_row new2 = filter (\<lambda>r. \<not> isEpicRow r) rows"
    "built_in_order e sch [] (new1 @ new2)"
    "r_epicMap st = map_after (new1 @ new2) []"
    "report = import_report (r_epicMap st)"
    by blast
  have 1: "map c_row (r_created st) = filter isEpicRow rows @ filter (\<lambda>r. \<not> isEpicRow r) rows"
    using t(1-3) by simp
  have bio: "built_in_order e sch [] (r_created st)" using t(1,4) by simp
  have 2: "\<forall>c\<in>set (r_created st).
          (\<exists>v. (if truthy (c_row c ''Issue Id'') then c_row c ''Issue Id''
                 else c_row c ''Summary'') = Some v \<and> c_localId c = trim v)
          \<and> get_prop (c_resp c) ''id'' = Inr (issue_id (c_ref c))
          \<and> get_prop (c_resp c) ''key'' = Inr (issue_key (c_ref c))"
  proof
    fix c assume "c \<in> set (r_created st)"
    then obtain pre post where "r_created st = pre @ c # post" by (meson split_list)
    with bio have b: "built_in_order e sch [] (pre @ c # post)" by simp
    from built_in_order_at(2) [OF b] built_in_order_at(3) [OF b] built_in_order_at(4) [OF b]
    show "(\<exists>v. (if truthy (c_row c ''Issue Id'') then c_row c ''Issue Id''
                 else c_row c ''Summary'') = Some v \<and> c_localId c = trim v)
          \<and> get_prop (c_resp c) ''id'' = Inr (issue_id (c_ref c))
          \<and> get_prop (c_resp c) ''key'' = Inr (issue_key (c_ref c))"
      by (simp add: localId_Inr)
  qed
  have m: "r_epicMap st = map_after (r_created st) []" using t(1,5) by simp
  have 3: "map_of (r_epicMap st) = map_of (rev (map recorded (r_created st)))"
    by (simp add: m map_of_map_after)
  have 4: "\<forall>pre c post. r_created st = pre @ c # post
            \<and> (\<forall>d\<in>set post. c_localId d \<noteq> c_localId c) \<longrightarrow>
          map_of (r_epicMap st) (c_localId c) = Some (c_ref c)"
  proof (intro allI impI)
    fix pre c post
    assume h: "r_created st = pre @ c # post \<and> (\<forall>d\<in>set post. c_localId d \<noteq> c_localId c)"
    then have "map_of (map_after (pre @ c # post) []) (c_localId c) = Some (c_ref c)"
      by (intro map_after_last_write) simp
    with h m show "map_of (r_epicMap st) (c_localId c) = Some (c_ref c)" by simp
  qed
  have 5: "fst ` set (r_epicMap st) = c_localId ` set (r_created st)"
    by (simp add: m keys_map_after)
  have 6: "distinct (map fst (r_epicMap st))"
    by (simp add: m distinct_map_after)
  have 7: "report =
         JArr (map (\<lambda>(k, ref). JArr [JStr k, JObj [(''id'', issue_id ref),
                                                    (''key'', issue_key ref)]])
                 (r_epicMap st))"
    using t(6) by (simp add: import_report_def)
  have 8: "\<forall>row st0 st1. createRow e sch api row st0 = Inr st1 \<longrightarrow>
          (\<exists>k ref. localId row = Inr k
             \<and> map_of (r_epicMap st1) = (map_of (r_epicMap st0))(k \<mapsto> ref))
          \<and> fst ` set (r_epicMap st0) \<subseteq> fst ` set (r_epicMap st1)"
  proof (intro allI impI)
    fix row st0 st1
    assume "createRow e sch api row st0 = Inr st1"
    from createRow_Inr [OF this] obtain c where "r_created st1 = r_created st0 @ [c]"
      "c_row c = row" "buildFields e (opts_of sch (r_epicMap st0)) row = Inr (c_fields c)"
      "localId row = Inr (c_localId c)"
      "get_prop (c_resp c) ''id'' = Inr (issue_id (c_ref c))"
      "get_prop (c_resp c) ''key'' = Inr (issue_key (c_ref c))"
      "r_epicMap st1 = AList.update (c_localId c) (c_ref c) (r_epicMap st0)"
      by blast
    then have c: "localId row = Inr (c_localId c)"
      "r_epicMap st1 = AList.update (c_localId c) (c_ref c) (r_epicMap st0)"
      by simp_all
    have a: "map_of (r_epicMap st1) = (map_of (r_epicMap st0))(c_localId c \<mapsto> c_ref c)"
      by (simp add: c(2) update_conv')
    have b: "fst ` set (r_epicMap st0) \<subseteq> fst ` set (r_epicMap st1)"
      by (auto simp: c(2) dom_update)
    from c(1) a b
    show "(\<exists>k ref. localId row = Inr k
             \<and> map_of (r_epicMap st1) = (map_of (r_epicMap st0))(k \<mapsto> ref))
          \<and> fst ` set (r_epicMap st0) \<subseteq> fst ` set (r_epicMap st1)"
      by blast
  qed
  show ?thesis
    by (intro conjI) (fact 1 2 3 4 5 6 7 8)+
qed

theorem identifier_map_last_write_wins_witness:
  "\<exists>report st a b.
     main company_env sample_schema sample_api 0 rows_same_summary = Inr (report, st)
     \<and> r_created st = [a, b]
     \<and> c_localId a = ''Fix bug'' \<and> c_localId b = ''Fix bug''
     \<and> r_epicMap st = [(''Fix bug'', c_ref b)]
     \<and> report = JArr [JArr [JStr ''Fix bug'',
                             JObj [(''id'', issue_id (c_ref b)), (''key'', issue_key (c_ref b))]]]"
proof -
  have "\<exists>report st. main company_env sample_schema sample_api 0 rows_same_summary
          = Inr (report, st)"
    by (simp add: rows_same_summary_def run_eval)
  then obtain report st
    where run: "main company_env sample_schema sample_api 0 rows_same_summary = Inr (report, st)"
    by blast
  note p = identifier_map_last_write_wins [OF run]
  have ne: "\<not> isEpicRow [''Summary'' \<mapsto> ''Fix bug'']"
    by (simp add: isEpicRow_def or_else_def toLowerCase_def)
  from p [THEN conjunct1] ne
  have rows: "map c_row (r_created st) = [[''Summary'' \<mapsto> ''Fix bug''], [''Summary'' \<mapsto> ''Fix bug'']]"
    by (simp add: rows_same_summary_def)
  then obtain a b where ab: "r_created st = [a, b]"
    "c_row a = [''Summary'' \<mapsto> ''Fix bug'']" "c_row b = [''Summary'' \<mapsto> ''Fix bug'']"
    by (cases "r_created st"; cases "tl (r_created st)") auto
  note ids = p [THEN conjunct2, THEN conjunct1, rule_format]
  have la: "c_localId a = ''Fix bug''"
    using ids [of a] ab by (auto simp: truthy_def trim_samples)
  have lb: "c_localId b = ''Fix bug''"
    using ids [of b] ab by (auto simp: truthy_def trim_samples)
  note last = p [THEN conjunct2, THEN conjunct2, THEN conjunct2, THEN conjunct1, rule_format,
      of "[a]" b "[]"]
  have mb: "map_of (r_epicMap st) ''Fix bug'' = Some (c_ref b)"
    using last ab(1) lb by simp
  note keys = p [THEN conjunct2, THEN conjunct2, THEN conjunct2, THEN conjunct2, THEN conjunct1]
  note dist = p [THEN conjunct2, THEN conjunct2, THEN conjunct2, THEN conjunct2, THEN conjunct2,
      THEN conjunct1]
  note rep = p [THEN conjunct2, THEN conjunct2, THEN conjunct2, THEN conjunct2, THEN conjunct2,
      THEN conjunct2, THEN conjunct1]
  have k: "fst ` set (r_epicMap st) = {''Fix bug''}"
    using keys ab(1) la lb by simp
  have m: "r_epicMap st = [(''Fix bug'', c_ref b)]"
    using dist k mb by (rule singleton_alist)
  have r: "report = JArr [JArr [JStr ''Fix bug'',
                             JObj [(''id'', issue_id (c_ref b)), (''key'', issue_key (c_ref b))]]]"
    using rep by (simp add: m)
  from run ab(1) la lb m r show ?thesis by blast
qed




end
